(* ===== verification/TracePrelude.thy ===== *)
theory TracePrelude
  imports Main "HOL-Library.Word" "HOL-Library.Monad_Syntax"
begin

text \<open>
  Shared vocabulary of the development: the machine integer types of the tracer
  (the guest is 32 bit, the host's \<open>size_t\<close> is 64 bit), the collections that
  carry the component proofs, and the generic lemmas on options, maps and words that
  several components need.
\<close>

unbundle bit_operations_syntax

section \<open>Types\<close>

type_synonym u8 = "8 word"
type_synonym u32 = "32 word"
type_synonym size_t = "64 word"

section \<open>Collections\<close>

named_theorems heap_simps \<open>evaluation of node reads and writes\<close>
named_theorems frame_simps \<open>what an update leaves unchanged\<close>
named_theorems tracer_defs \<open>unfolding of the tracer's operations\<close>

section \<open>Options\<close>

lemma bind_eq_SomeE:
  assumes "Option.bind m f = Some r"
  obtains x where "m = Some x" "f x = Some r"
  using assms by (cases m) auto

lemma bind_SomeI [intro?]: "m = Some x \<Longrightarrow> f x = r \<Longrightarrow> Option.bind m f = r"
  by simp

section \<open>Machine words\<close>

text \<open>Cutting 64-bit arithmetic to its low 32 bits.\<close>

lemma low_word: "(word_of_int (k mod 2 ^ 64) :: u32) = word_of_int k"
  by (simp add: word_of_int_eq_iff take_bit_eq_mod mod_mod_cancel)

lemma ucast_uint: "(ucast (x::64 word) :: u32) = word_of_int (uint x)"
  by transfer simp

lemma ucast_low_add: "(ucast (x + y :: 64 word) :: u32) = ucast x + ucast y"
  unfolding ucast_uint uint_word_ariths by (simp add: low_word [simplified])

lemma ucast_low_mult: "(ucast (x * y :: 64 word) :: u32) = ucast x * ucast y"
  unfolding ucast_uint uint_word_ariths by (simp add: low_word [simplified])

lemma ucast_low_zext [simp]: "(ucast (ucast (x::u32) :: 64 word) :: u32) = x"
  by transfer simp

text \<open>
  The half-open range \<open>[a, a + n)\<close> as the C code tests it, with wrap-around in the
  upper bound.
\<close>

definition in_range :: "u32 \<Rightarrow> u32 \<Rightarrow> u32 \<Rightarrow> bool" where
  "in_range a n k \<longleftrightarrow> a \<le> k \<and> k < a + n"

text \<open>A range is proper when it is not empty and its upper bound does not wrap.\<close>

definition proper_range :: "u32 \<Rightarrow> u32 \<Rightarrow> bool" where
  "proper_range a n \<longleftrightarrow> 0 < n \<and> unat a + unat n < 2 ^ 32"

lemma proper_range_self: "proper_range a n \<Longrightarrow> in_range a n a"
  by (auto simp: proper_range_def in_range_def word_less_nat_alt unat_word_ariths)

lemma in_range_unat:
  "proper_range a n \<Longrightarrow> in_range a n k \<longleftrightarrow> unat a \<le> unat k \<and> unat k < unat a + unat n"
  by (auto simp: proper_range_def in_range_def word_less_nat_alt word_le_nat_alt unat_word_ariths)

lemma in_range_empty [simp]: "\<not> in_range a 0 k"
  by (auto simp: in_range_def)

section \<open>Counting loops on machine words\<close>

lemma word_inc_loop: "i < n \<Longrightarrow> unat (i + 1) = Suc (unat i)" for i n :: "'a::len word"
proof -
  assume "i < n"
  then have "unat i < unat n" by (simp add: word_less_nat_alt)
  also have "\<dots> < 2 ^ LENGTH('a)" by (rule unsigned_less)
  finally have "Suc (unat i) < 2 ^ LENGTH('a) \<or> Suc (unat i) = 2 ^ LENGTH('a)" by linarith
  with \<open>unat i < unat n\<close> \<open>unat n < 2 ^ LENGTH('a)\<close> have "Suc (unat i) < 2 ^ LENGTH('a)" by linarith
  then show ?thesis by (simp add: unat_word_ariths)
qed

lemma word_loop_dec: "i < n \<Longrightarrow> unat (n - (i + 1)) < unat (n - i)" for i n :: "'a::len word"
proof -
  assume a: "i < n"
  then have "i + 1 \<le> n" by (rule inc_le)
  with a word_inc_loop [OF a] show ?thesis by (simp add: unat_sub word_less_nat_alt le_less)
qed

section \<open>All words\<close>

lemma all_words:
  "set (map of_nat [0..<2 ^ LENGTH('a)]) = (UNIV :: 'a::len word set)"
  "distinct (map of_nat [0..<2 ^ LENGTH('a)] :: 'a::len word list)"
proof -
  have "w \<in> of_nat ` {0..<2 ^ LENGTH('a)}" for w :: "'a word"
  proof
    show "w = of_nat (unat w)" by simp
    show "unat w \<in> {0..<2 ^ LENGTH('a)}" using unsigned_less [of w] by simp
  qed
  then show "set (map of_nat [0..<2 ^ LENGTH('a)]) = (UNIV :: 'a word set)" by auto
  have "inj_on (of_nat :: nat \<Rightarrow> 'a word) {0..<2 ^ LENGTH('a)}"
    by (rule inj_onI) (simp add: word_of_nat_eq_iff take_bit_nat_eq_self)
  then show "distinct (map of_nat [0..<2 ^ LENGTH('a)] :: 'a word list)" by (simp add: distinct_map)
qed

end
