(* ===== verification/RbTree.thy ===== *)
theory RbTree
  imports TracePrelude
begin

text \<open>
  The red-black tree of \<open>target-i386/rev_sem/rb_tree.c\<close> and its node type of
  \<open>heap_shadow.h\<close>, statement by statement. The nodes live in an explicit heap; a read
  or a write through \<open>NULL\<close> or through a freed node is \<open>None\<close>, and so is a loop that
  does not return. \<open>SENTINEL\<close> is the address of the static leaf node, whose fields the
  code reads and (the parent field) writes like those of any other node.
\<close>

section \<open>Data\<close>

datatype nodeColor = BLACK | RED

datatype RbtStatus =
    RBT_STATUS_OK
  | RBT_STATUS_MEM_EXHAUSTED
  | RBT_STATUS_DUPLICATE_KEY
  | RBT_STATUS_REALLOC_SMALL
  | RBT_STATUS_REALLOC_LARGE
  | RBT_STATUS_KEY_NOT_FOUND

datatype nptr = NULL | SENTINEL | Nd nat

record NodeType =
  nd_left :: nptr
  nd_right :: nptr
  nd_parent :: nptr
  nd_color :: nodeColor
  nd_key :: u32
  nd_size :: u32
  nd_type :: size_t
  nd_pc :: u32
  nd_name :: string

definition sentinel :: NodeType where
  "sentinel = \<lparr>nd_left = SENTINEL, nd_right = SENTINEL, nd_parent = NULL, nd_color = BLACK,
     nd_key = 0, nd_size = 0, nd_type = 0, nd_pc = 0, nd_name = ''''\<rparr>"

record rbstate =
  rb_heap :: "nptr \<Rightarrow> NodeType option"
  rb_root :: nptr

definition rb_init :: rbstate where
  "rb_init = \<lparr>rb_heap = [SENTINEL \<mapsto> sentinel], rb_root = SENTINEL\<rparr>"

section \<open>Node access\<close>

definition rd :: "(NodeType \<Rightarrow> 'a) \<Rightarrow> nptr \<Rightarrow> rbstate \<Rightarrow> 'a option" where
  "rd f x s = map_option f (rb_heap s x)"

definition wr :: "(NodeType \<Rightarrow> NodeType) \<Rightarrow> nptr \<Rightarrow> rbstate \<Rightarrow> rbstate option" where
  "wr f x s = (case rb_heap s x of None \<Rightarrow> None
     | Some n \<Rightarrow> Some (s\<lparr>rb_heap := (rb_heap s)(x \<mapsto> f n)\<rparr>))"

definition set_left :: "nptr \<Rightarrow> nptr \<Rightarrow> rbstate \<Rightarrow> rbstate option" where
  "set_left x v = wr (\<lambda>n. n\<lparr>nd_left := v\<rparr>) x"

definition set_right :: "nptr \<Rightarrow> nptr \<Rightarrow> rbstate \<Rightarrow> rbstate option" where
  "set_right x v = wr (\<lambda>n. n\<lparr>nd_right := v\<rparr>) x"

definition set_parent :: "nptr \<Rightarrow> nptr \<Rightarrow> rbstate \<Rightarrow> rbstate option" where
  "set_parent x v = wr (\<lambda>n. n\<lparr>nd_parent := v\<rparr>) x"

definition set_color :: "nptr \<Rightarrow> nodeColor \<Rightarrow> rbstate \<Rightarrow> rbstate option" where
  "set_color x c = wr (\<lambda>n. n\<lparr>nd_color := c\<rparr>) x"

definition free_node :: "nptr \<Rightarrow> rbstate \<Rightarrow> rbstate" where
  "free_node x s = s\<lparr>rb_heap := (rb_heap s)(x := None)\<rparr>"

section \<open>Rotations\<close>

definition rotateLeft :: "nptr \<Rightarrow> rbstate \<Rightarrow> rbstate option" where
  "rotateLeft x s = do {
     y \<leftarrow> rd nd_right x s;
     yl \<leftarrow> rd nd_left y s;
     s \<leftarrow> set_right x yl s;
     yl \<leftarrow> rd nd_left y s;
     s \<leftarrow> (if yl \<noteq> SENTINEL then set_parent yl x s else Some s);
     s \<leftarrow> (if y \<noteq> SENTINEL
           then do { xp \<leftarrow> rd nd_parent x s; set_parent y xp s }
           else Some s);
     xp \<leftarrow> rd nd_parent x s;
     s \<leftarrow> (if xp \<noteq> NULL
           then do { xpl \<leftarrow> rd nd_left xp s;
                     if x = xpl then set_left xp y s else set_right xp y s }
           else Some (s\<lparr>rb_root := y\<rparr>));
     s \<leftarrow> set_left y x s;
     if x \<noteq> SENTINEL then set_parent x y s else Some s }"

definition rotateRight :: "nptr \<Rightarrow> rbstate \<Rightarrow> rbstate option" where
  "rotateRight x s = do {
     y \<leftarrow> rd nd_left x s;
     yr \<leftarrow> rd nd_right y s;
     s \<leftarrow> set_left x yr s;
     yr \<leftarrow> rd nd_right y s;
     s \<leftarrow> (if yr \<noteq> SENTINEL then set_parent yr x s else Some s);
     s \<leftarrow> (if y \<noteq> SENTINEL
           then do { xp \<leftarrow> rd nd_parent x s; set_parent y xp s }
           else Some s);
     xp \<leftarrow> rd nd_parent x s;
     s \<leftarrow> (if xp \<noteq> NULL
           then do { xpr \<leftarrow> rd nd_right xp s;
                     if x = xpr then set_right xp y s else set_left xp y s }
           else Some (s\<lparr>rb_root := y\<rparr>));
     s \<leftarrow> set_right y x s;
     if x \<noteq> SENTINEL then set_parent x y s else Some s }"

section \<open>Insertion\<close>

text \<open>One iteration of the loop of \<open>insertFixup\<close>; the result is the new \<open>x\<close>.\<close>

definition insertFixup_body :: "nptr \<Rightarrow> rbstate \<Rightarrow> (nptr \<times> rbstate) option" where
  "insertFixup_body x s = do {
     p \<leftarrow> rd nd_parent x s;
     g \<leftarrow> rd nd_parent p s;
     gl \<leftarrow> rd nd_left g s;
     if p = gl then do {
       y \<leftarrow> rd nd_right g s;
       yc \<leftarrow> rd nd_color y s;
       if yc = RED then do {
         s \<leftarrow> set_color p BLACK s;
         s \<leftarrow> set_color y BLACK s;
         s \<leftarrow> set_color g RED s;
         Some (g, s) }
       else do {
         pr \<leftarrow> rd nd_right p s;
         (x, s) \<leftarrow> (if x = pr then do { s \<leftarrow> rotateLeft p s; Some (p, s) } else Some (x, s));
         p \<leftarrow> rd nd_parent x s;
         s \<leftarrow> set_color p BLACK s;
         g \<leftarrow> rd nd_parent p s;
         s \<leftarrow> set_color g RED s;
         s \<leftarrow> rotateRight g s;
         Some (x, s) } }
     else do {
       y \<leftarrow> rd nd_left g s;
       yc \<leftarrow> rd nd_color y s;
       if yc = RED then do {
         s \<leftarrow> set_color p BLACK s;
         s \<leftarrow> set_color y BLACK s;
         s \<leftarrow> set_color g RED s;
         Some (g, s) }
       else do {
         pl \<leftarrow> rd nd_left p s;
         (x, s) \<leftarrow> (if x = pl then do { s \<leftarrow> rotateRight p s; Some (p, s) } else Some (x, s));
         p \<leftarrow> rd nd_parent x s;
         s \<leftarrow> set_color p BLACK s;
         g \<leftarrow> rd nd_parent p s;
         s \<leftarrow> set_color g RED s;
         s \<leftarrow> rotateLeft g s;
         Some (x, s) } } }"

partial_function (option) insertFixup_loop :: "nptr \<Rightarrow> rbstate \<Rightarrow> rbstate option" where
  "insertFixup_loop x s =
     (if x = rb_root s then Some s
      else do {
        p \<leftarrow> rd nd_parent x s;
        c \<leftarrow> rd nd_color p s;
        if c = RED then do { r \<leftarrow> insertFixup_body x s; insertFixup_loop (fst r) (snd r) }
        else Some s })"

definition insertFixup :: "nptr \<Rightarrow> rbstate \<Rightarrow> rbstate option" where
  "insertFixup x s = do { s \<leftarrow> insertFixup_loop x s; set_color (rb_root s) BLACK s }"

text \<open>The descent of \<open>rbtInsert\<close>: an early return, or the future parent.\<close>

partial_function (option) rbtInsert_find ::
    "u32 \<Rightarrow> u32 \<Rightarrow> nptr \<Rightarrow> nptr \<Rightarrow> rbstate \<Rightarrow> (RbtStatus + nptr) option" where
  "rbtInsert_find key sz current parent s =
     (if current = SENTINEL then Some (Inr parent)
      else do {
        ck \<leftarrow> rd nd_key current s;
        if key = ck then do {
          cs \<leftarrow> rd nd_size current s;
          Some (Inl (if sz = cs then RBT_STATUS_DUPLICATE_KEY
                     else if sz \<le> cs then RBT_STATUS_REALLOC_SMALL
                     else RBT_STATUS_REALLOC_LARGE)) }
        else do {
          nxt \<leftarrow> (if key < ck then rd nd_left current s else rd nd_right current s);
          rbtInsert_find key sz nxt current s } })"

text \<open>
  The new node of \<open>rbtInsert\<close>: its payload comes from the \<open>NodeType\<close> argument \<open>p\<close>,
  its key and size from the other two; then it is linked below the parent.
\<close>

definition rbtInsert_node :: "u32 \<Rightarrow> u32 \<Rightarrow> NodeType \<Rightarrow> nptr \<Rightarrow> NodeType" where
  "rbtInsert_node key sz p parent =
     \<lparr>nd_left = SENTINEL, nd_right = SENTINEL, nd_parent = parent, nd_color = RED,
      nd_key = key, nd_size = sz, nd_type = nd_type p, nd_pc = nd_pc p, nd_name = nd_name p\<rparr>"

definition rbtInsert_link :: "nptr \<Rightarrow> u32 \<Rightarrow> nptr \<Rightarrow> rbstate \<Rightarrow> rbstate option" where
  "rbtInsert_link parent key x s =
     (if parent \<noteq> NULL
      then do { pk \<leftarrow> rd nd_key parent s;
                if key \<le> pk then set_left parent x s else set_right parent x s }
      else Some (s\<lparr>rb_root := x\<rparr>))"

text \<open>\<open>mal\<close> is what \<open>malloc\<close> returns in a state: \<open>NULL\<close>, or a node not in use.\<close>

definition rbtInsert ::
    "(rbstate \<Rightarrow> nptr) \<Rightarrow> u32 \<Rightarrow> u32 \<Rightarrow> NodeType \<Rightarrow> rbstate \<Rightarrow> (RbtStatus \<times> rbstate) option" where
  "rbtInsert mal key sz p s = do {
     r \<leftarrow> rbtInsert_find key sz (rb_root s) NULL s;
     case r of
       Inl code \<Rightarrow> Some (code, s)
     | Inr parent \<Rightarrow>
         if mal s = NULL then Some (RBT_STATUS_MEM_EXHAUSTED, s)
         else do {
           s' \<leftarrow> rbtInsert_link parent key (mal s)
                  (s\<lparr>rb_heap := (rb_heap s)(mal s \<mapsto> rbtInsert_node key sz p parent)\<rparr>);
           s' \<leftarrow> insertFixup (mal s) s';
           Some (RBT_STATUS_OK, s') } }"

section \<open>Search\<close>

text \<open>\<open>ds_code_rbtFind2\<close>: the node whose \<open>[key, key + size)\<close> holds the address.\<close>

partial_function (option) find2_from :: "u32 \<Rightarrow> nptr \<Rightarrow> rbstate \<Rightarrow> nptr option" where
  "find2_from key current s =
     (if current = SENTINEL then Some NULL
      else do {
        ck \<leftarrow> rd nd_key current s;
        cs \<leftarrow> rd nd_size current s;
        if ck \<le> key \<and> key < ck + cs then Some current
        else do {
          nxt \<leftarrow> (if key \<le> ck then rd nd_left current s else rd nd_right current s);
          find2_from key nxt s } })"

definition ds_code_rbtFind2 :: "u32 \<Rightarrow> rbstate \<Rightarrow> nptr option" where
  "ds_code_rbtFind2 key s = find2_from key (rb_root s) s"

section \<open>Deletion\<close>

text \<open>
  The loop body of \<open>deleteFixup\<close> in parts: on each side, the block for a red sibling
  and the one for a sibling whose far child is black (the result is the new sibling),
  the last recolouring and rotation, and the case distinction for a black sibling (the
  result is the new \<open>x\<close>).
\<close>

definition deleteFixup_red_L :: "nptr \<Rightarrow> nptr \<Rightarrow> rbstate \<Rightarrow> (nptr \<times> rbstate) option" where
  "deleteFixup_red_L x w s = do {
     wc \<leftarrow> rd nd_color w s;
     if wc = RED then do {
       s \<leftarrow> set_color w BLACK s;
       p \<leftarrow> rd nd_parent x s;
       s \<leftarrow> set_color p RED s;
       s \<leftarrow> rotateLeft p s;
       p \<leftarrow> rd nd_parent x s;
       w \<leftarrow> rd nd_right p s;
       Some (w, s) }
     else Some (w, s) }"

definition deleteFixup_near_L :: "nptr \<Rightarrow> nptr \<Rightarrow> rbstate \<Rightarrow> (nptr \<times> rbstate) option" where
  "deleteFixup_near_L x w s = do {
     wr \<leftarrow> rd nd_right w s;
     wrc \<leftarrow> rd nd_color wr s;
     if wrc = BLACK then do {
       wl \<leftarrow> rd nd_left w s;
       s \<leftarrow> set_color wl BLACK s;
       s \<leftarrow> set_color w RED s;
       s \<leftarrow> rotateRight w s;
       p \<leftarrow> rd nd_parent x s;
       w \<leftarrow> rd nd_right p s;
       Some (w, s) }
     else Some (w, s) }"

definition deleteFixup_last_L :: "nptr \<Rightarrow> nptr \<Rightarrow> rbstate \<Rightarrow> (nptr \<times> rbstate) option" where
  "deleteFixup_last_L x w s = do {
     p \<leftarrow> rd nd_parent x s;
     pc \<leftarrow> rd nd_color p s;
     s \<leftarrow> set_color w pc s;
     s \<leftarrow> set_color p BLACK s;
     wr \<leftarrow> rd nd_right w s;
     s \<leftarrow> set_color wr BLACK s;
     s \<leftarrow> rotateLeft p s;
     Some (rb_root s, s) }"

definition deleteFixup_black_L :: "nptr \<Rightarrow> nptr \<Rightarrow> rbstate \<Rightarrow> (nptr \<times> rbstate) option" where
  "deleteFixup_black_L x w s = do {
     wl \<leftarrow> rd nd_left w s;
     wlc \<leftarrow> rd nd_color wl s;
     wr \<leftarrow> rd nd_right w s;
     wrc \<leftarrow> rd nd_color wr s;
     if wlc = BLACK \<and> wrc = BLACK then do {
       s \<leftarrow> set_color w RED s;
       p \<leftarrow> rd nd_parent x s;
       Some (p, s) }
     else do {
       (w, s) \<leftarrow> deleteFixup_near_L x w s;
       deleteFixup_last_L x w s } }"

definition deleteFixup_red_R :: "nptr \<Rightarrow> nptr \<Rightarrow> rbstate \<Rightarrow> (nptr \<times> rbstate) option" where
  "deleteFixup_red_R x w s = do {
     wc \<leftarrow> rd nd_color w s;
     if wc = RED then do {
       s \<leftarrow> set_color w BLACK s;
       p \<leftarrow> rd nd_parent x s;
       s \<leftarrow> set_color p RED s;
       s \<leftarrow> rotateRight p s;
       p \<leftarrow> rd nd_parent x s;
       w \<leftarrow> rd nd_left p s;
       Some (w, s) }
     else Some (w, s) }"

definition deleteFixup_near_R :: "nptr \<Rightarrow> nptr \<Rightarrow> rbstate \<Rightarrow> (nptr \<times> rbstate) option" where
  "deleteFixup_near_R x w s = do {
     wl \<leftarrow> rd nd_left w s;
     wlc \<leftarrow> rd nd_color wl s;
     if wlc = BLACK then do {
       wr \<leftarrow> rd nd_right w s;
       s \<leftarrow> set_color wr BLACK s;
       s \<leftarrow> set_color w RED s;
       s \<leftarrow> rotateLeft w s;
       p \<leftarrow> rd nd_parent x s;
       w \<leftarrow> rd nd_left p s;
       Some (w, s) }
     else Some (w, s) }"

definition deleteFixup_last_R :: "nptr \<Rightarrow> nptr \<Rightarrow> rbstate \<Rightarrow> (nptr \<times> rbstate) option" where
  "deleteFixup_last_R x w s = do {
     p \<leftarrow> rd nd_parent x s;
     pc \<leftarrow> rd nd_color p s;
     s \<leftarrow> set_color w pc s;
     s \<leftarrow> set_color p BLACK s;
     wl \<leftarrow> rd nd_left w s;
     s \<leftarrow> set_color wl BLACK s;
     s \<leftarrow> rotateRight p s;
     Some (rb_root s, s) }"

definition deleteFixup_black_R :: "nptr \<Rightarrow> nptr \<Rightarrow> rbstate \<Rightarrow> (nptr \<times> rbstate) option" where
  "deleteFixup_black_R x w s = do {
     wr \<leftarrow> rd nd_right w s;
     wrc \<leftarrow> rd nd_color wr s;
     wl \<leftarrow> rd nd_left w s;
     wlc \<leftarrow> rd nd_color wl s;
     if wrc = BLACK \<and> wlc = BLACK then do {
       s \<leftarrow> set_color w RED s;
       p \<leftarrow> rd nd_parent x s;
       Some (p, s) }
     else do {
       (w, s) \<leftarrow> deleteFixup_near_R x w s;
       deleteFixup_last_R x w s } }"

definition deleteFixup_body :: "nptr \<Rightarrow> rbstate \<Rightarrow> (nptr \<times> rbstate) option" where
  "deleteFixup_body x s = do {
     p \<leftarrow> rd nd_parent x s;
     pl \<leftarrow> rd nd_left p s;
     if x = pl then do {
       w \<leftarrow> rd nd_right p s;
       (w, s) \<leftarrow> deleteFixup_red_L x w s;
       deleteFixup_black_L x w s }
     else do {
       w \<leftarrow> rd nd_left p s;
       (w, s) \<leftarrow> deleteFixup_red_R x w s;
       deleteFixup_black_R x w s } }"

partial_function (option) deleteFixup_loop :: "nptr \<Rightarrow> rbstate \<Rightarrow> (nptr \<times> rbstate) option" where
  "deleteFixup_loop x s =
     (if x = rb_root s then Some (x, s)
      else do {
        c \<leftarrow> rd nd_color x s;
        if c = BLACK then do { r \<leftarrow> deleteFixup_body x s; deleteFixup_loop (fst r) (snd r) }
        else Some (x, s) })"

definition deleteFixup :: "nptr \<Rightarrow> rbstate \<Rightarrow> rbstate option" where
  "deleteFixup x s = do { (x, s) \<leftarrow> deleteFixup_loop x s; set_color x BLACK s }"

text \<open>The inner loop of \<open>rbtErase\<close>: the leftmost node below \<open>y\<close>.\<close>

partial_function (option) leftmost :: "nptr \<Rightarrow> rbstate \<Rightarrow> nptr option" where
  "leftmost y s = do {
     yl \<leftarrow> rd nd_left y s;
     if yl \<noteq> SENTINEL then leftmost yl s else Some y }"

text \<open>The payload copy of \<open>rbtErase\<close>: every payload field but the object's name.\<close>

definition copy_payload :: "NodeType \<Rightarrow> NodeType \<Rightarrow> NodeType" where
  "copy_payload y z = z\<lparr>nd_key := nd_key y, nd_size := nd_size y, nd_type := nd_type y,
                        nd_pc := nd_pc y\<rparr>"

text \<open>Put \<open>x\<close> in the place of \<open>y\<close>.\<close>

definition rbtErase_unlink :: "nptr \<Rightarrow> nptr \<Rightarrow> rbstate \<Rightarrow> rbstate option" where
  "rbtErase_unlink y x s = do {
     yp \<leftarrow> rd nd_parent y s;
     s \<leftarrow> set_parent x yp s;
     yp \<leftarrow> rd nd_parent y s;
     if yp \<noteq> NULL
     then do { ypl \<leftarrow> rd nd_left yp s;
               if y = ypl then set_left yp x s else set_right yp x s }
     else Some (s\<lparr>rb_root := x\<rparr>) }"

definition rbtErase :: "nptr \<Rightarrow> rbstate \<Rightarrow> (RbtStatus \<times> rbstate) option" where
  "rbtErase z s = do {
     zl \<leftarrow> rd nd_left z s;
     zr \<leftarrow> rd nd_right z s;
     y \<leftarrow> (if zl = SENTINEL \<or> zr = SENTINEL then Some z else leftmost zr s);
     yl \<leftarrow> rd nd_left y s;
     x \<leftarrow> (if yl \<noteq> SENTINEL then Some yl else rd nd_right y s);
     s \<leftarrow> rbtErase_unlink y x s;
     s \<leftarrow> (if y \<noteq> z then do { ny \<leftarrow> rb_heap s y; wr (copy_payload ny) z s } else Some s);
     yc \<leftarrow> rd nd_color y s;
     s \<leftarrow> (if yc = BLACK then deleteFixup x s else Some s);
     Some (RBT_STATUS_OK, free_node y s) }"

section \<open>The interface used by the tracer\<close>

text \<open>\<open>ds_code_erase_all\<close>: the size argument is not used.\<close>

partial_function (option) ds_code_erase_all :: "u32 \<Rightarrow> u32 option \<Rightarrow> rbstate \<Rightarrow> rbstate option" where
  "ds_code_erase_all key sz s = do {
     dup \<leftarrow> ds_code_rbtFind2 key s;
     if dup = NULL then Some s
     else do { r \<leftarrow> rbtErase dup s; ds_code_erase_all key sz (snd r) } }"

partial_function (option) rbtInsert2_clear :: "u32 \<Rightarrow> rbstate \<Rightarrow> rbstate option" where
  "rbtInsert2_clear key s = do {
     dup \<leftarrow> ds_code_rbtFind2 key s;
     if dup = NULL then Some s
     else do { r \<leftarrow> rbtErase dup s; rbtInsert2_clear key (snd r) } }"

definition rbtInsert2 ::
    "(rbstate \<Rightarrow> nptr) \<Rightarrow> u32 \<Rightarrow> u32 \<Rightarrow> NodeType \<Rightarrow> rbstate \<Rightarrow> (RbtStatus \<times> rbstate) option" where
  "rbtInsert2 mal key sz p s = do { s \<leftarrow> rbtInsert2_clear key s; rbtInsert mal key sz p s }"

text \<open>
  \<open>ds_code_all_delete_rb\<close>: the argument \<open>p->size\<close> of the second call is read after the
  node may have been freed; the value passed is then indeterminate, \<open>None\<close>.
\<close>

definition ds_code_all_delete_rb :: "u32 \<Rightarrow> rbstate \<Rightarrow> (nat \<times> rbstate) option" where
  "ds_code_all_delete_rb start_addr s = do {
     p \<leftarrow> ds_code_rbtFind2 start_addr s;
     if p \<noteq> NULL then do {
       r \<leftarrow> rbtErase p s;
       s \<leftarrow> ds_code_erase_all start_addr (rd nd_size p (snd r)) (snd r);
       Some (1, s) }
     else Some (0, s) }"

text \<open>\<open>rbtInorder\<close> with a callback on a caller's state, and \<open>ds_code_traverse\<close>.\<close>

partial_function (option) rbtInorder ::
    "nptr \<Rightarrow> (NodeType \<Rightarrow> 'p \<Rightarrow> 'p) \<Rightarrow> rbstate \<Rightarrow> 'p \<Rightarrow> 'p option" where
  "rbtInorder node callback s q =
     (if node = SENTINEL then Some q
      else do {
        n \<leftarrow> rb_heap s node;
        q \<leftarrow> rbtInorder (nd_left n) callback s q;
        rbtInorder (nd_right n) callback s (callback n q) })"

definition ds_code_traverse :: "(NodeType \<Rightarrow> 'p \<Rightarrow> 'p) \<Rightarrow> rbstate \<Rightarrow> 'p \<Rightarrow> 'p option" where
  "ds_code_traverse callback s q = rbtInorder (rb_root s) callback s q"

text \<open>\<open>rbtDelete\<close>: free a subtree, children first.\<close>

partial_function (option) rbtDelete :: "nptr \<Rightarrow> rbstate \<Rightarrow> rbstate option" where
  "rbtDelete p s =
     (if p = SENTINEL then Some s
      else do {
        pl \<leftarrow> rd nd_left p s;
        s \<leftarrow> rbtDelete pl s;
        pr \<leftarrow> rd nd_right p s;
        s \<leftarrow> rbtDelete pr s;
        Some (free_node p s) })"

declare insertFixup_loop.simps [code] rbtInsert_find.simps [code] find2_from.simps [code]
  deleteFixup_loop.simps [code] leftmost.simps [code] ds_code_erase_all.simps [code]
  rbtInsert2_clear.simps [code] rbtInorder.simps [code] rbtDelete.simps [code]

end
