(* ===== verification/RbShape.thy ===== *)
theory RbShape
  imports RbTree
begin

text \<open>
  What the linked nodes of \<open>rb_tree.c\<close> represent. A heap represents a binary tree
  (\<open>tree_at\<close>), a path from a node up to the root is a context (\<open>ctx_at\<close>), and
  \<open>zip_at\<close> says that a state holds a given tree, focused on one of its subtrees. The
  lemmas give the effect of reading, recolouring and rotating at the focus.
\<close>

section \<open>Trees and contexts\<close>

record payload =
  o_key :: u32
  o_size :: u32
  o_type :: size_t
  o_pc :: u32
  o_name :: string

definition payload_of :: "NodeType \<Rightarrow> payload" where
  "payload_of n = \<lparr>o_key = nd_key n, o_size = nd_size n, o_type = nd_type n, o_pc = nd_pc n,
                   o_name = nd_name n\<rparr>"

datatype rbt = Lf | Br rbt nat nodeColor payload rbt

datatype frame = FL nat nodeColor payload rbt | FR rbt nat nodeColor payload

type_synonym ctx = "frame list"

fun ptr_of :: "rbt \<Rightarrow> nptr" where
  "ptr_of Lf = SENTINEL"
| "ptr_of (Br l a c d r) = Nd a"

fun addrs :: "rbt \<Rightarrow> nat list" where
  "addrs Lf = []"
| "addrs (Br l a c d r) = addrs l @ a # addrs r"

fun f_addr :: "frame \<Rightarrow> nat" where
  "f_addr (FL a c d r) = a"
| "f_addr (FR l a c d) = a"

fun f_sib :: "frame \<Rightarrow> rbt" where
  "f_sib (FL a c d r) = r"
| "f_sib (FR l a c d) = l"

fun f_col :: "frame \<Rightarrow> nodeColor" where
  "f_col (FL a c d r) = c"
| "f_col (FR l a c d) = c"

fun plug1 :: "frame \<Rightarrow> rbt \<Rightarrow> rbt" where
  "plug1 (FL a c d r) t = Br t a c d r"
| "plug1 (FR l a c d) t = Br l a c d t"

fun plug :: "ctx \<Rightarrow> rbt \<Rightarrow> rbt" where
  "plug [] t = t"
| "plug (f # k) t = plug k (plug1 f t)"

fun ctx_ptr :: "ctx \<Rightarrow> nptr" where
  "ctx_ptr [] = NULL"
| "ctx_ptr (f # k) = Nd (f_addr f)"

fun root_ptr :: "ctx \<Rightarrow> nptr \<Rightarrow> nptr" where
  "root_ptr [] p = p"
| "root_ptr (f # k) p = root_ptr k (Nd (f_addr f))"

fun ctx_addrs :: "ctx \<Rightarrow> nat list" where
  "ctx_addrs [] = []"
| "ctx_addrs (f # k) = f_addr f # addrs (f_sib f) @ ctx_addrs k"

section \<open>Representation\<close>

definition node_at ::
    "(nptr \<Rightarrow> NodeType option) \<Rightarrow> nat \<Rightarrow> nptr \<Rightarrow> nptr \<Rightarrow> nptr \<Rightarrow> nodeColor \<Rightarrow> payload \<Rightarrow> bool" where
  "node_at h a l r p c d \<longleftrightarrow> (\<exists>n. h (Nd a) = Some n \<and> nd_left n = l \<and> nd_right n = r \<and>
     nd_parent n = p \<and> nd_color n = c \<and> payload_of n = d)"

fun tree_at :: "(nptr \<Rightarrow> NodeType option) \<Rightarrow> nptr \<Rightarrow> rbt \<Rightarrow> bool" where
  "tree_at h p Lf \<longleftrightarrow> True"
| "tree_at h p (Br l a c d r) \<longleftrightarrow> node_at h a (ptr_of l) (ptr_of r) p c d \<and>
     tree_at h (Nd a) l \<and> tree_at h (Nd a) r"

fun ctx_at :: "(nptr \<Rightarrow> NodeType option) \<Rightarrow> ctx \<Rightarrow> nptr \<Rightarrow> bool" where
  "ctx_at h [] q \<longleftrightarrow> True"
| "ctx_at h (FL a c d r # k) q \<longleftrightarrow> node_at h a q (ptr_of r) (ctx_ptr k) c d \<and>
     tree_at h (Nd a) r \<and> ctx_at h k (Nd a)"
| "ctx_at h (FR l a c d # k) q \<longleftrightarrow> node_at h a (ptr_of l) q (ctx_ptr k) c d \<and>
     tree_at h (Nd a) l \<and> ctx_at h k (Nd a)"

definition sent_ok :: "(nptr \<Rightarrow> NodeType option) \<Rightarrow> bool" where
  "sent_ok h \<longleftrightarrow> (\<exists>n. h SENTINEL = Some n \<and> nd_color n = BLACK)"

definition zip_at :: "rbstate \<Rightarrow> ctx \<Rightarrow> rbt \<Rightarrow> bool" where
  "zip_at s k t \<longleftrightarrow> tree_at (rb_heap s) (ctx_ptr k) t \<and> ctx_at (rb_heap s) k (ptr_of t) \<and>
     distinct (addrs t @ ctx_addrs k) \<and> rb_root s = root_ptr k (ptr_of t) \<and>
     sent_ok (rb_heap s)"

text \<open>The nodes of the heap are those of the tree and the sentinel: nothing leaks.\<close>

definition heap_is :: "rbstate \<Rightarrow> nat set \<Rightarrow> bool" where
  "heap_is s A \<longleftrightarrow> dom (rb_heap s) = insert SENTINEL (Nd ` A)"

section \<open>Frame lemmas\<close>

lemma node_at_upd [frame_simps]:
  "x \<noteq> Nd a \<Longrightarrow> node_at (h(x := v)) a l r p c d = node_at h a l r p c d"
  by (simp add: node_at_def)

lemma tree_at_upd:
  "x \<notin> Nd ` set (addrs t) \<Longrightarrow> tree_at (h(x := v)) p t = tree_at h p t"
proof (induction t arbitrary: p)
  case (Br l a c d r)
  then have "x \<noteq> Nd a" by auto
  with Br show ?case by (simp add: node_at_upd image_Un del: fun_upd_apply)
qed simp

lemma ctx_at_upd:
  "x \<notin> Nd ` set (ctx_addrs k) \<Longrightarrow> ctx_at (h(x := v)) k q = ctx_at h k q"
proof (induction k arbitrary: q)
  case (Cons f k)
  then have "x \<noteq> Nd (f_addr f)" by auto
  with Cons show ?case by (cases f) (simp_all add: node_at_upd tree_at_upd image_Un del: fun_upd_apply)
qed simp

lemma upd_frame [frame_simps]:
  "b \<notin> set (addrs t) \<Longrightarrow> tree_at (h(Nd b := v)) p t = tree_at h p t"
  "b \<notin> set (ctx_addrs k) \<Longrightarrow> ctx_at (h(Nd b := v)) k q = ctx_at h k q"
  "tree_at (h(SENTINEL := v)) p t = tree_at h p t"
  "ctx_at (h(SENTINEL := v)) k q = ctx_at h k q"
  by (auto intro!: tree_at_upd ctx_at_upd)

lemma tree_at_agree:
  "tree_at h p t \<Longrightarrow> (\<And>a. a \<in> set (addrs t) \<Longrightarrow> h' (Nd a) = h (Nd a)) \<Longrightarrow> tree_at h' p t"
  by (induction t arbitrary: p) (auto simp: node_at_def)

lemma sent_ok_upd [frame_simps]: "x \<noteq> SENTINEL \<Longrightarrow> sent_ok (h(x := v)) = sent_ok h"
  by (simp add: sent_ok_def)

section \<open>Moving the focus\<close>

lemma ptr_of_plug1 [simp]: "ptr_of (plug1 f t) = Nd (f_addr f)"
  by (cases f) auto

lemma zip_at_Cons: "zip_at s (f # k) t \<longleftrightarrow> zip_at s k (plug1 f t)"
  by (cases f) (auto simp: zip_at_def)

lemma zip_up:
  "zip_at s (FL a c d r # k) t = zip_at s k (Br t a c d r)"
  "zip_at s (FR l a c d # k) t = zip_at s k (Br l a c d t)"
  by (simp_all add: zip_at_Cons)

lemma zip_at_plug: "zip_at s k t \<longleftrightarrow> zip_at s [] (plug k t)"
  by (induction k arbitrary: t) (auto simp: zip_at_Cons)

lemma plug_append: "plug (k1 @ k2) t = plug k2 (plug k1 t)"
  by (induction k1 arbitrary: t) auto

section \<open>Reading at the focus\<close>

lemma zip_at_node:
  assumes "zip_at s k (Br l a c d r)"
  shows "\<exists>n. rb_heap s (Nd a) = Some n \<and> nd_left n = ptr_of l \<and> nd_right n = ptr_of r \<and>
     nd_parent n = ctx_ptr k \<and> nd_color n = c \<and> payload_of n = d"
  using assms by (auto simp: zip_at_def node_at_def)

lemma rd_focus [heap_simps]:
  assumes "zip_at s k (Br l a c d r)"
  shows "rd nd_left (Nd a) s = Some (ptr_of l)"
    and "rd nd_right (Nd a) s = Some (ptr_of r)"
    and "rd nd_parent (Nd a) s = Some (ctx_ptr k)"
    and "rd nd_color (Nd a) s = Some c"
    and "rd nd_key (Nd a) s = Some (o_key d)"
    and "rd nd_size (Nd a) s = Some (o_size d)"
  using zip_at_node [OF assms] by (auto simp: rd_def payload_of_def)

lemma rd_sentinel_color:
  assumes "zip_at s k t"
  shows "rd nd_color SENTINEL s = Some BLACK"
  using assms by (auto simp: zip_at_def sent_ok_def rd_def)

fun t_col :: "rbt \<Rightarrow> nodeColor" where
  "t_col Lf = BLACK"
| "t_col (Br l a c d r) = c"

lemma rd_color_ptr_of:
  assumes "zip_at s k t"
  shows "rd nd_color (ptr_of t) s = Some (t_col t)"
proof (cases t)
  case Lf
  with rd_sentinel_color [OF assms] show ?thesis by simp
next
  case (Br l a c d r)
  with assms have "zip_at s k (Br l a c d r)" by simp
  from rd_focus(4) [OF this] Br show ?thesis by simp
qed

section \<open>Writing at the focus\<close>

definition same_dom :: "rbstate \<Rightarrow> rbstate \<Rightarrow> bool" where
  "same_dom s s' \<longleftrightarrow> dom (rb_heap s') = dom (rb_heap s) \<and> rb_heap s' SENTINEL = rb_heap s SENTINEL"

lemma same_dom_refl [simp]: "same_dom s s"
  by (simp add: same_dom_def)

lemma same_dom_trans [trans]: "same_dom s s' \<Longrightarrow> same_dom s' s'' \<Longrightarrow> same_dom s s''"
  by (simp add: same_dom_def)

lemma payload_of_links [simp]:
  "payload_of (n\<lparr>nd_left := v\<rparr>) = payload_of n"
  "payload_of (n\<lparr>nd_right := v\<rparr>) = payload_of n"
  "payload_of (n\<lparr>nd_parent := v\<rparr>) = payload_of n"
  "payload_of (n\<lparr>nd_color := cc\<rparr>) = payload_of n"
  by (simp_all add: payload_of_def)

lemma set_color_focus:
  assumes "zip_at s k (Br l a c d r)"
  shows "\<exists>s'. set_color (Nd a) c' s = Some s' \<and> zip_at s' k (Br l a c' d r) \<and> same_dom s s'"
proof -
  obtain n where n: "rb_heap s (Nd a) = Some n" "nd_left n = ptr_of l" "nd_right n = ptr_of r"
      "nd_parent n = ctx_ptr k" "payload_of n = d"
    using zip_at_node [OF assms] by blast
  then have "set_color (Nd a) c' s = Some (s\<lparr>rb_heap := (rb_heap s)(Nd a \<mapsto> n\<lparr>nd_color := c'\<rparr>)\<rparr>)"
    by (simp add: set_color_def wr_def)
  moreover have "zip_at (s\<lparr>rb_heap := (rb_heap s)(Nd a \<mapsto> n\<lparr>nd_color := c'\<rparr>)\<rparr>) k (Br l a c' d r)"
    using assms n by (auto simp: zip_at_def frame_simps node_at_def)
  ultimately show ?thesis using n by (auto simp: same_dom_def)
qed

lemma ptr_of_in: "ptr_of t = Nd a \<Longrightarrow> a \<in> set (addrs t)"
  by (cases t) auto

lemma ptr_of_notin [frame_simps]:
  "a \<notin> set (addrs t) \<Longrightarrow> ptr_of t \<noteq> Nd a"
  "a \<notin> set (addrs t) \<Longrightarrow> Nd a \<noteq> ptr_of t"
  using ptr_of_in by force+

lemmas link_defs = rd_def set_left_def set_right_def set_parent_def wr_def
lemmas shape_defs = zip_at_def node_at_def same_dom_def

lemma rotateLeft_focus:
  assumes "zip_at s k (Br a x cx dx (Br b y cy dy c))"
  shows "\<exists>s'. rotateLeft (Nd x) s = Some s' \<and> zip_at s' k (Br (Br a x cx dx b) y cy dy c) \<and>
    same_dom s s'"
proof -
  obtain nx where nx: "rb_heap s (Nd x) = Some nx" "nd_left nx = ptr_of a" "nd_right nx = Nd y"
      "nd_parent nx = ctx_ptr k" "payload_of nx = dx" "nd_color nx = cx"
    using zip_at_node [OF assms] by auto
  obtain ny where ny: "rb_heap s (Nd y) = Some ny" "nd_left ny = ptr_of b" "nd_right ny = ptr_of c"
      "nd_parent ny = Nd x" "payload_of ny = dy" "nd_color ny = cy"
    using assms by (auto simp: zip_at_def node_at_def)
  have xy: "x \<noteq> y" using assms by (auto simp: zip_at_def)
  consider "k = []" | g cg dg rg k' where "k = FL g cg dg rg # k'"
    | g cg dg rg k' where "k = FR rg g cg dg # k'"
    by (metis f_addr.cases neq_Nil_conv)
  then show ?thesis
    using assms nx ny xy
    by cases (cases b; auto simp: rotateLeft_def link_defs shape_defs frame_simps)+
qed

lemma rotateRight_focus:
  assumes "zip_at s k (Br (Br a y cy dy b) x cx dx c)"
  shows "\<exists>s'. rotateRight (Nd x) s = Some s' \<and> zip_at s' k (Br a y cy dy (Br b x cx dx c)) \<and>
    same_dom s s'"
proof -
  obtain nx where nx: "rb_heap s (Nd x) = Some nx" "nd_left nx = Nd y" "nd_right nx = ptr_of c"
      "nd_parent nx = ctx_ptr k" "payload_of nx = dx" "nd_color nx = cx"
    using zip_at_node [OF assms] by auto
  obtain ny where ny: "rb_heap s (Nd y) = Some ny" "nd_left ny = ptr_of a" "nd_right ny = ptr_of b"
      "nd_parent ny = Nd x" "payload_of ny = dy" "nd_color ny = cy"
    using assms by (auto simp: zip_at_def node_at_def)
  have xy: "x \<noteq> y" using assms by (auto simp: zip_at_def)
  consider "k = []" | g cg dg rg k' where "k = FL g cg dg rg # k'"
    | g cg dg rg k' where "k = FR rg g cg dg # k'"
    by (metis f_addr.cases neq_Nil_conv)
  then show ?thesis
    using assms nx ny xy
    by cases (cases b; auto simp: rotateRight_def link_defs shape_defs frame_simps)+
qed

lemma set_colorE:
  assumes "zip_at s k (Br l a c d r)"
  obtains s' where "set_color (Nd a) c' s = Some s'" "zip_at s' k (Br l a c' d r)" "same_dom s s'"
  using set_color_focus [OF assms] by blast

lemma rotateLeftE:
  assumes "zip_at s k (Br a x cx dx (Br b y cy dy c))"
  obtains s' where "rotateLeft (Nd x) s = Some s'"
    "zip_at s' k (Br (Br a x cx dx b) y cy dy c)" "same_dom s s'"
  using rotateLeft_focus [OF assms] by blast

lemma rotateRightE:
  assumes "zip_at s k (Br (Br a y cy dy b) x cx dx c)"
  obtains s' where "rotateRight (Nd x) s = Some s'"
    "zip_at s' k (Br a y cy dy (Br b x cx dx c))" "same_dom s s'"
  using rotateRight_focus [OF assms] by blast

lemma payload_of_sel [simp]:
  "o_key (payload_of n) = nd_key n" "o_size (payload_of n) = nd_size n"
  "o_type (payload_of n) = nd_type n" "o_pc (payload_of n) = nd_pc n" "o_name (payload_of n) = nd_name n"
  by (simp_all add: payload_of_def)

lemma tree_at_dom: "tree_at h p t \<Longrightarrow> a \<in> set (addrs t) \<Longrightarrow> h (Nd a) \<noteq> None"
  by (induction t arbitrary: p) (auto simp: node_at_def)

lemma ctx_at_dom: "ctx_at h k q \<Longrightarrow> a \<in> set (ctx_addrs k) \<Longrightarrow> h (Nd a) \<noteq> None"
  by (induction h k q rule: ctx_at.induct) (auto simp: node_at_def dest: tree_at_dom)

lemma zip_fresh: "zip_at s k t \<Longrightarrow> rb_heap s (Nd x) = None \<Longrightarrow> x \<notin> set (addrs t) \<and> x \<notin> set (ctx_addrs k)"
  by (auto simp: zip_at_def dest: tree_at_dom ctx_at_dom)

text \<open>Distinct nodes of a represented tree have distinct addresses.\<close>

lemma zip_distinct: "zip_at s k t \<Longrightarrow> distinct (addrs t @ ctx_addrs k)"
  by (simp add: zip_at_def)

lemma root_ptr_in: "k \<noteq> [] \<Longrightarrow> \<exists>a \<in> set (ctx_addrs k). root_ptr k p = Nd a"
proof (induction k arbitrary: p)
  case (Cons f k)
  then show ?case by (cases "k = []") auto
qed simp

lemma focus_is_root: "zip_at s k (Br l a c d r) \<Longrightarrow> Nd a = rb_root s \<longleftrightarrow> k = []"
  using root_ptr_in [of k "Nd a"] by (cases "k = []") (auto simp: zip_at_def)

end
