(* ===== verification/RbBalance.thy ===== *)
theory RbBalance
  imports RbShape
begin

text \<open>
  The red-black conditions on trees and, for a path to a node, on contexts: colours
  (\<open>invc\<close>, \<open>cctx\<close>) and black heights (\<open>invh\<close>, \<open>hctx\<close>), and the contents in
  order (\<open>inord\<close>). Nothing here mentions the heap.
\<close>

section \<open>Definitions\<close>

fun bh :: "rbt \<Rightarrow> nat" where
  "bh Lf = 0"
| "bh (Br l a c d r) = (if c = BLACK then Suc (bh l) else bh l)"

fun invc :: "rbt \<Rightarrow> bool" where
  "invc Lf \<longleftrightarrow> True"
| "invc (Br l a c d r) \<longleftrightarrow> (c = RED \<longrightarrow> t_col l = BLACK \<and> t_col r = BLACK) \<and> invc l \<and> invc r"

fun invh :: "rbt \<Rightarrow> bool" where
  "invh Lf \<longleftrightarrow> True"
| "invh (Br l a c d r) \<longleftrightarrow> bh l = bh r \<and> invh l \<and> invh r"

definition rbt_ok :: "rbt \<Rightarrow> bool" where
  "rbt_ok t \<longleftrightarrow> invc t \<and> invh t \<and> t_col t = BLACK"

fun paint :: "nodeColor \<Rightarrow> rbt \<Rightarrow> rbt" where
  "paint c Lf = Lf"
| "paint c (Br l a c' d r) = Br l a c d r"

fun cctx :: "ctx \<Rightarrow> bool" where
  "cctx [] \<longleftrightarrow> True"
| "cctx (f # k) \<longleftrightarrow> invc (f_sib f) \<and>
     (f_col f = RED \<longrightarrow> t_col (f_sib f) = BLACK \<and> k \<noteq> [] \<and> f_col (hd k) = BLACK) \<and> cctx k"

fun hctx :: "ctx \<Rightarrow> nat \<Rightarrow> bool" where
  "hctx [] n \<longleftrightarrow> True"
| "hctx (f # k) n \<longleftrightarrow> invh (f_sib f) \<and> bh (f_sib f) = n \<and>
     hctx k (if f_col f = BLACK then Suc n else n)"

text \<open>A tree of this colour may stand in the hole of the context.\<close>

definition fits :: "ctx \<Rightarrow> nodeColor \<Rightarrow> bool" where
  "fits k c \<longleftrightarrow> (k = [] \<longrightarrow> c = BLACK) \<and> (k \<noteq> [] \<longrightarrow> f_col (hd k) = RED \<longrightarrow> c = BLACK)"

fun inord :: "rbt \<Rightarrow> (nat \<times> payload) list" where
  "inord Lf = []"
| "inord (Br l a c d r) = inord l @ (a, d) # inord r"

section \<open>Colours and heights along a path\<close>

lemma neq_colors [simp]: "c \<noteq> RED \<longleftrightarrow> c = BLACK" "c \<noteq> BLACK \<longleftrightarrow> c = RED"
  by (cases c; simp)+

lemma t_col_plug1 [simp]: "t_col (plug1 f t) = f_col f"
  by (cases f) auto

lemma t_col_paint [simp]: "t_col (paint BLACK t) = BLACK"
  by (cases t) auto

lemma invh_paint [simp]: "invh (paint c t) = invh t"
  by (cases t) auto

lemma inord_paint [simp]: "inord (paint c t) = inord t"
  by (cases t) auto

lemma addrs_paint [simp]: "addrs (paint c t) = addrs t"
  by (cases t) auto

lemma invc_paint_BLACK: "invc t \<Longrightarrow> invc (paint BLACK t)"
  by (cases t) auto

lemma invc_plug1:
  "invc (plug1 f t) \<longleftrightarrow>
     (f_col f = RED \<longrightarrow> t_col (f_sib f) = BLACK \<and> t_col t = BLACK) \<and> invc (f_sib f) \<and> invc t"
  by (cases f) auto

lemma invh_plug1: "invh (plug1 f t) \<longleftrightarrow> bh t = bh (f_sib f) \<and> invh (f_sib f) \<and> invh t"
  by (cases f) auto

lemma bh_plug1: "bh t = bh (f_sib f) \<Longrightarrow> bh (plug1 f t) = (if f_col f = BLACK then Suc (bh t) else bh t)"
  by (cases f) auto

lemma plug_invc:
  "invc (plug k t) \<and> t_col (plug k t) = BLACK \<longleftrightarrow> cctx k \<and> invc t \<and> fits k (t_col t)"
  by (induction k arbitrary: t) (auto simp: invc_plug1 fits_def neq_Nil_conv)

lemma plug_invh: "invh (plug k t) \<longleftrightarrow> hctx k (bh t) \<and> invh t"
proof (induction k arbitrary: t)
  case (Cons f k)
  show ?case
  proof (cases "bh t = bh (f_sib f)")
    case True
    then show ?thesis by (simp add: Cons.IH invh_plug1 bh_plug1 [OF True] del: neq_colors) blast
  qed (auto simp: Cons.IH invh_plug1)
qed simp

lemma rbt_ok_plug:
  "rbt_ok (plug k t) \<longleftrightarrow> cctx k \<and> hctx k (bh t) \<and> invc t \<and> invh t \<and> fits k (t_col t)"
  using plug_invc [of k t] by (auto simp: rbt_ok_def plug_invh)

section \<open>Contents along a path\<close>

text \<open>What stands to the left and to the right of the hole.\<close>

fun before :: "ctx \<Rightarrow> (nat \<times> payload) list" where
  "before [] = []"
| "before (FL a c d r # k) = before k"
| "before (FR l a c d # k) = before k @ inord l @ [(a, d)]"

fun after :: "ctx \<Rightarrow> (nat \<times> payload) list" where
  "after [] = []"
| "after (FL a c d r # k) = (a, d) # inord r @ after k"
| "after (FR l a c d # k) = after k"

lemma inord_plug: "inord (plug k t) = before k @ inord t @ after k"
proof (induction k arbitrary: t)
  case (Cons f k)
  then show ?case by (cases f) simp_all
qed simp

lemma inord_plug_cong: "inord t = inord t' \<Longrightarrow> inord (plug k t) = inord (plug k t')"
  by (simp add: inord_plug)

text \<open>The keys in order, and the search-tree condition.\<close>

definition keys :: "(nat \<times> payload) list \<Rightarrow> u32 list" where
  "keys xs = map (o_key \<circ> snd) xs"

definition sorted_keys :: "(nat \<times> payload) list \<Rightarrow> bool" where
  "sorted_keys xs \<longleftrightarrow> sorted_wrt (<) (keys xs)"

lemma keys_simps [simp]:
  "keys [] = []" "keys ((a, d) # xs) = o_key d # keys xs" "keys (xs @ ys) = keys xs @ keys ys"
  by (simp_all add: keys_def)

lemma in_keys: "ck \<in> set (keys xs) \<longleftrightarrow> (\<exists>a d. (a, d) \<in> set xs \<and> o_key d = ck)"
  by (force simp: keys_def)

lemma sorted_keys_inj:
  "sorted_keys xs \<Longrightarrow> (a, d) \<in> set xs \<Longrightarrow> (b, e) \<in> set xs \<Longrightarrow> o_key d = o_key e \<Longrightarrow> d = e"
  by (induction xs) (force simp: sorted_keys_def in_keys)+

lemma sorted_keys_mid:
  "sorted_keys (xs @ (a, d) # ys) \<longleftrightarrow> sorted_keys (xs @ ys) \<and>
     (\<forall>x \<in> set (keys xs). x < o_key d) \<and> (\<forall>y \<in> set (keys ys). o_key d < y)"
  by (auto simp: sorted_keys_def sorted_wrt_append)

lemma addrs_inord: "addrs t = map fst (inord t)"
  by (induction t) auto

lemma set_addrs_plug1: "set (addrs (plug1 f t)) = insert (f_addr f) (set (addrs (f_sib f)) \<union> set (addrs t))"
  by (cases f) auto

lemma set_addrs_plug [simp]: "set (addrs (plug k t)) = set (addrs t) \<union> set (ctx_addrs k)"
  by (induction k arbitrary: t) (auto simp: set_addrs_plug1)

lemma plug_not_Lf [simp]: "plug k (Br l a c d r) \<noteq> Lf"
proof (induction k arbitrary: l a c d r)
  case (Cons f k)
  then show ?case by (cases f) auto
qed simp

section \<open>Size and height\<close>

fun theight :: "rbt \<Rightarrow> nat" where
  "theight Lf = 0"
| "theight (Br l a c d r) = Suc (max (theight l) (theight r))"

lemma theight_bh: "invc t \<Longrightarrow> invh t \<Longrightarrow> theight t \<le> 2 * bh t + (if t_col t = RED then 1 else 0)"
  by (induction t) (auto split: if_splits)

lemma bh_length: "invh t \<Longrightarrow> 2 ^ bh t \<le> length (inord t) + 1"
  by (induction t) auto

lemma rbt_ok_height:
  assumes "rbt_ok t"
  shows "2 ^ (theight t div 2) \<le> length (inord t) + 1"
proof -
  have "theight t \<le> 2 * bh t"
    using theight_bh [of t] assms by (simp add: rbt_ok_def)
  then have "(2::nat) ^ (theight t div 2) \<le> 2 ^ bh t" by simp
  also have "\<dots> \<le> length (inord t) + 1"
    using bh_length assms by (simp add: rbt_ok_def)
  finally show ?thesis .
qed

section \<open>Represented states\<close>

text \<open>
  \<open>rep s t\<close>: the state is exactly the search tree \<open>t\<close>, balanced, with no other node
  allocated.
\<close>

definition rep :: "rbstate \<Rightarrow> rbt \<Rightarrow> bool" where
  "rep s t \<longleftrightarrow> zip_at s [] t \<and> rbt_ok t \<and> sorted_keys (inord t) \<and> heap_is s (set (addrs t))"

text \<open>What \<open>malloc\<close> may return: \<open>NULL\<close>, or a node that is not in use.\<close>

definition malloc_ok :: "(rbstate \<Rightarrow> nptr) \<Rightarrow> bool" where
  "malloc_ok mal \<longleftrightarrow> (\<forall>s. mal s = NULL \<or> (\<exists>x. mal s = Nd x \<and> rb_heap s (Nd x) = None))"

end
