(* ===== verification/RbInsert.thy ===== *)
theory RbInsert
  imports RbBalance
begin

text \<open>
  \<open>insertFixup\<close> and \<open>rbtInsert\<close>: every iteration of the repair loop is one of three
  cases on each side (red uncle, inner child, outer child); the loop returns with the
  colour conditions restored, and insertion adds exactly one node, in key order.
\<close>

section \<open>One iteration, the parent a left child\<close>

lemma insertFixup_body_L_red:
  assumes z: "zip_at s (f # FL g cg dg (Br u1 u RED du u2) # k) (Br l x cx dx r)"
  shows "\<exists>s'. insertFixup_body (Nd x) s = Some (Nd g, s') \<and> same_dom s s' \<and>
    zip_at s' k (Br (paint BLACK (plug1 f (Br l x cx dx r))) g RED dg (Br u1 u BLACK du u2))"
proof -
  let ?U = "Br u1 u RED du u2" and ?U' = "Br u1 u BLACK du u2"
  obtain pl p cp dp pr where P: "plug1 f (Br l x cx dx r) = Br pl p cp dp pr"
    by (cases f) auto
  then have fp: "f_addr f = p" by (cases f) auto
  have zp: "zip_at s (FL g cg dg ?U # k) (Br pl p cp dp pr)" and zg: "zip_at s k (Br (Br pl p cp dp pr) g cg dg ?U)"
    and zu: "zip_at s (FR (Br pl p cp dp pr) g cg dg # k) ?U"
    using z P by (simp_all add: zip_up zip_at_Cons)
  obtain s1 where s1: "set_color (Nd p) BLACK s = Some s1" "zip_at s1 (FL g cg dg ?U # k) (Br pl p BLACK dp pr)"
    "same_dom s s1" by (rule set_colorE [OF zp])
  then have "zip_at s1 (FR (Br pl p BLACK dp pr) g cg dg # k) ?U" by (simp add: zip_up)
  then obtain s2 where s2: "set_color (Nd u) BLACK s1 = Some s2"
    "zip_at s2 (FR (Br pl p BLACK dp pr) g cg dg # k) ?U'" "same_dom s1 s2" by (rule set_colorE)
  then have "zip_at s2 k (Br (Br pl p BLACK dp pr) g cg dg ?U')" by (simp add: zip_up)
  then obtain s3 where s3: "set_color (Nd g) RED s2 = Some s3"
    "zip_at s3 k (Br (Br pl p BLACK dp pr) g RED dg ?U')" "same_dom s2 s3" by (rule set_colorE)
  have "insertFixup_body (Nd x) s = Some (Nd g, s3)"
    using rd_focus [OF z] rd_focus [OF zp] rd_focus [OF zg] rd_focus [OF zu] s1(1) s2(1) s3(1)
    by (simp add: insertFixup_body_def fp)
  with s1 s2 s3 P show ?thesis by (auto intro: same_dom_trans)
qed

lemma insertFixup_body_L_outer:
  assumes z: "zip_at s k (Br (Br (Br l x cx dx r) p cp dp r') g cg dg U)"
    and U: "t_col U = BLACK"
  shows "\<exists>s'. insertFixup_body (Nd x) s = Some (Nd x, s') \<and> same_dom s s' \<and>
    zip_at s' k (Br (Br l x cx dx r) p BLACK dp (Br r' g RED dg U))"
proof -
  let ?X = "Br l x cx dx r" and ?kp = "FL g cg dg U # k"
  have zp: "zip_at s ?kp (Br ?X p cp dp r')" and zx: "zip_at s (FL p cp dp r' # ?kp) ?X"
    and zu: "zip_at s (FR (Br ?X p cp dp r') g cg dg # k) U"
    using z by (simp_all add: zip_up)
  have xr: "Nd x \<noteq> ptr_of r'" using zip_distinct [OF z] by (auto simp: frame_simps)
  obtain s1 where s1: "set_color (Nd p) BLACK s = Some s1" "zip_at s1 ?kp (Br ?X p BLACK dp r')"
    "same_dom s s1" by (rule set_colorE [OF zp])
  then have "zip_at s1 k (Br (Br ?X p BLACK dp r') g cg dg U)" by (simp add: zip_up)
  then obtain s2 where s2: "set_color (Nd g) RED s1 = Some s2"
    "zip_at s2 k (Br (Br ?X p BLACK dp r') g RED dg U)" "same_dom s1 s2" by (rule set_colorE)
  from s2(2) obtain s3 where s3: "rotateRight (Nd g) s2 = Some s3"
    "zip_at s3 k (Br ?X p BLACK dp (Br r' g RED dg U))" "same_dom s2 s3" by (rule rotateRightE)
  have "insertFixup_body (Nd x) s = Some (Nd x, s3)"
    using U xr rd_focus [OF z] rd_focus [OF zp] rd_focus [OF zx] rd_color_ptr_of [OF zu]
      rd_focus(3) [OF s1(2)] s1(1) s2(1) s3(1)
    by (simp add: insertFixup_body_def)
  with s1 s2 s3 show ?thesis by (auto intro: same_dom_trans)
qed

lemma insertFixup_body_L_inner:
  assumes z: "zip_at s k (Br (Br l' p cp dp (Br l x cx dx r)) g cg dg U)"
    and U: "t_col U = BLACK"
  shows "\<exists>s'. insertFixup_body (Nd x) s = Some (Nd p, s') \<and> same_dom s s' \<and>
    zip_at s' k (Br (Br l' p cp dp l) x BLACK dx (Br r g RED dg U))"
proof -
  let ?X = "Br l x cx dx r" and ?Y = "Br l' p cp dp l" and ?kp = "FL g cg dg U # k"
  have zp: "zip_at s ?kp (Br l' p cp dp ?X)" and zx: "zip_at s (FR l' p cp dp # ?kp) ?X"
    and zu: "zip_at s (FR (Br l' p cp dp ?X) g cg dg # k) U"
    using z by (simp_all add: zip_up)
  from zp obtain s0 where s0: "rotateLeft (Nd p) s = Some s0" "zip_at s0 ?kp (Br ?Y x cx dx r)"
    "same_dom s s0" by (rule rotateLeftE)
  then have zp0: "zip_at s0 (FL x cx dx r # ?kp) ?Y" by (simp add: zip_up)
  from s0(2) obtain s1 where s1: "set_color (Nd x) BLACK s0 = Some s1"
    "zip_at s1 ?kp (Br ?Y x BLACK dx r)" "same_dom s0 s1" by (rule set_colorE)
  then have "zip_at s1 k (Br (Br ?Y x BLACK dx r) g cg dg U)" by (simp add: zip_up)
  then obtain s2 where s2: "set_color (Nd g) RED s1 = Some s2"
    "zip_at s2 k (Br (Br ?Y x BLACK dx r) g RED dg U)" "same_dom s1 s2" by (rule set_colorE)
  from s2(2) obtain s3 where s3: "rotateRight (Nd g) s2 = Some s3"
    "zip_at s3 k (Br ?Y x BLACK dx (Br r g RED dg U))" "same_dom s2 s3" by (rule rotateRightE)
  have "insertFixup_body (Nd x) s = Some (Nd p, s3)"
    using U rd_focus [OF z] rd_focus [OF zp] rd_focus [OF zx] rd_color_ptr_of [OF zu]
      rd_focus(3) [OF zp0] rd_focus(3) [OF s1(2)] s0(1) s1(1) s2(1) s3(1)
    by (simp add: insertFixup_body_def)
  with s0 s1 s2 s3 show ?thesis by (auto intro: same_dom_trans)
qed

section \<open>One iteration, the parent a right child\<close>

lemma insertFixup_body_R_red:
  assumes z: "zip_at s (f # FR (Br u1 u RED du u2) g cg dg # k) (Br l x cx dx r)"
  shows "\<exists>s'. insertFixup_body (Nd x) s = Some (Nd g, s') \<and> same_dom s s' \<and>
    zip_at s' k (Br (Br u1 u BLACK du u2) g RED dg (paint BLACK (plug1 f (Br l x cx dx r))))"
proof -
  let ?U = "Br u1 u RED du u2" and ?U' = "Br u1 u BLACK du u2"
  obtain pl p cp dp pr where P: "plug1 f (Br l x cx dx r) = Br pl p cp dp pr"
    by (cases f) auto
  then have fp: "f_addr f = p" by (cases f) auto
  have zp: "zip_at s (FR ?U g cg dg # k) (Br pl p cp dp pr)" and zg: "zip_at s k (Br ?U g cg dg (Br pl p cp dp pr))"
    and zu: "zip_at s (FL g cg dg (Br pl p cp dp pr) # k) ?U"
    using z P by (simp_all add: zip_up zip_at_Cons)
  have pu: "p \<noteq> u" using zip_distinct [OF zg] by auto
  obtain s1 where s1: "set_color (Nd p) BLACK s = Some s1" "zip_at s1 (FR ?U g cg dg # k) (Br pl p BLACK dp pr)"
    "same_dom s s1" by (rule set_colorE [OF zp])
  then have "zip_at s1 (FL g cg dg (Br pl p BLACK dp pr) # k) ?U" by (simp add: zip_up)
  then obtain s2 where s2: "set_color (Nd u) BLACK s1 = Some s2"
    "zip_at s2 (FL g cg dg (Br pl p BLACK dp pr) # k) ?U'" "same_dom s1 s2" by (rule set_colorE)
  then have "zip_at s2 k (Br ?U' g cg dg (Br pl p BLACK dp pr))" by (simp add: zip_up)
  then obtain s3 where s3: "set_color (Nd g) RED s2 = Some s3"
    "zip_at s3 k (Br ?U' g RED dg (Br pl p BLACK dp pr))" "same_dom s2 s3" by (rule set_colorE)
  have "insertFixup_body (Nd x) s = Some (Nd g, s3)"
    using pu rd_focus [OF z] rd_focus [OF zp] rd_focus [OF zg] rd_focus [OF zu] s1(1) s2(1) s3(1)
    by (simp add: insertFixup_body_def fp)
  with s1 s2 s3 P show ?thesis by (auto intro: same_dom_trans)
qed

lemma insertFixup_body_R_outer:
  assumes z: "zip_at s k (Br U g cg dg (Br l' p cp dp (Br l x cx dx r)))"
    and U: "t_col U = BLACK"
  shows "\<exists>s'. insertFixup_body (Nd x) s = Some (Nd x, s') \<and> same_dom s s' \<and>
    zip_at s' k (Br (Br U g RED dg l') p BLACK dp (Br l x cx dx r))"
proof -
  let ?X = "Br l x cx dx r" and ?kp = "FR U g cg dg # k"
  have zp: "zip_at s ?kp (Br l' p cp dp ?X)" and zx: "zip_at s (FR l' p cp dp # ?kp) ?X"
    and zu: "zip_at s (FL g cg dg (Br l' p cp dp ?X) # k) U"
    using z by (simp_all add: zip_up)
  have xr: "Nd x \<noteq> ptr_of l'" and pU: "Nd p \<noteq> ptr_of U"
    using zip_distinct [OF z] by (auto simp: frame_simps)
  obtain s1 where s1: "set_color (Nd p) BLACK s = Some s1" "zip_at s1 ?kp (Br l' p BLACK dp ?X)"
    "same_dom s s1" by (rule set_colorE [OF zp])
  then have "zip_at s1 k (Br U g cg dg (Br l' p BLACK dp ?X))" by (simp add: zip_up)
  then obtain s2 where s2: "set_color (Nd g) RED s1 = Some s2"
    "zip_at s2 k (Br U g RED dg (Br l' p BLACK dp ?X))" "same_dom s1 s2" by (rule set_colorE)
  from s2(2) obtain s3 where s3: "rotateLeft (Nd g) s2 = Some s3"
    "zip_at s3 k (Br (Br U g RED dg l') p BLACK dp ?X)" "same_dom s2 s3" by (rule rotateLeftE)
  have "insertFixup_body (Nd x) s = Some (Nd x, s3)"
    using U xr pU rd_focus [OF z] rd_focus [OF zp] rd_focus [OF zx] rd_color_ptr_of [OF zu]
      rd_focus(3) [OF s1(2)] s1(1) s2(1) s3(1)
    by (simp add: insertFixup_body_def)
  with s1 s2 s3 show ?thesis by (auto intro: same_dom_trans)
qed

lemma insertFixup_body_R_inner:
  assumes z: "zip_at s k (Br U g cg dg (Br (Br l x cx dx r) p cp dp r'))"
    and U: "t_col U = BLACK"
  shows "\<exists>s'. insertFixup_body (Nd x) s = Some (Nd p, s') \<and> same_dom s s' \<and>
    zip_at s' k (Br (Br U g RED dg l) x BLACK dx (Br r p cp dp r'))"
proof -
  let ?X = "Br l x cx dx r" and ?Y = "Br r p cp dp r'" and ?kp = "FR U g cg dg # k"
  have zp: "zip_at s ?kp (Br ?X p cp dp r')" and zx: "zip_at s (FL p cp dp r' # ?kp) ?X"
    and zu: "zip_at s (FL g cg dg (Br ?X p cp dp r') # k) U"
    using z by (simp_all add: zip_up)
  have pU: "Nd p \<noteq> ptr_of U" using zip_distinct [OF z] by (auto simp: frame_simps)
  from zp obtain s0 where s0: "rotateRight (Nd p) s = Some s0" "zip_at s0 ?kp (Br l x cx dx ?Y)"
    "same_dom s s0" by (rule rotateRightE)
  then have zp0: "zip_at s0 (FR l x cx dx # ?kp) ?Y" by (simp add: zip_up)
  from s0(2) obtain s1 where s1: "set_color (Nd x) BLACK s0 = Some s1"
    "zip_at s1 ?kp (Br l x BLACK dx ?Y)" "same_dom s0 s1" by (rule set_colorE)
  then have "zip_at s1 k (Br U g cg dg (Br l x BLACK dx ?Y))" by (simp add: zip_up)
  then obtain s2 where s2: "set_color (Nd g) RED s1 = Some s2"
    "zip_at s2 k (Br U g RED dg (Br l x BLACK dx ?Y))" "same_dom s1 s2" by (rule set_colorE)
  from s2(2) obtain s3 where s3: "rotateLeft (Nd g) s2 = Some s3"
    "zip_at s3 k (Br (Br U g RED dg l) x BLACK dx ?Y)" "same_dom s2 s3" by (rule rotateLeftE)
  have "insertFixup_body (Nd x) s = Some (Nd p, s3)"
    using U pU rd_focus [OF z] rd_focus [OF zp] rd_focus [OF zx] rd_color_ptr_of [OF zu]
      rd_focus(3) [OF zp0] rd_focus(3) [OF s1(2)] s0(1) s1(1) s2(1) s3(1)
    by (simp add: insertFixup_body_def)
  with s0 s1 s2 s3 show ?thesis by (auto intro: same_dom_trans)
qed

section \<open>The loop\<close>

lemma paint_plug1:
  "invc (paint BLACK (plug1 f t)) \<longleftrightarrow> invc (f_sib f) \<and> invc t"
  "bh t = bh (f_sib f) \<Longrightarrow> bh (paint BLACK (plug1 f t)) = Suc (bh t)"
  by (cases f; auto)+

lemma insertFixup_loop_done:
  assumes "zip_at s (f # k) (Br l x c d r)" "f_col f = BLACK"
  shows "insertFixup_loop (Nd x) s = Some s"
proof -
  have "zip_at s k (plug1 f (Br l x c d r))" using assms(1) by (simp add: zip_at_Cons)
  then have "rd nd_color (Nd (f_addr f)) s = Some BLACK"
    using rd_color_ptr_of assms(2) by fastforce
  then show ?thesis
    using rd_focus [OF assms(1)] focus_is_root [OF assms(1)]
    by (subst insertFixup_loop.simps) (simp add: bind_eq_Some_conv)
qed

definition ins_ready :: "ctx \<Rightarrow> rbt \<Rightarrow> bool" where
  "ins_ready k t \<longleftrightarrow> cctx k \<and> hctx k (bh t) \<and> invc t \<and> invh t"

text \<open>
  An iteration either moves the red node two levels up, or repairs the tree and makes
  the loop condition false.
\<close>

definition ins_step :: "rbstate \<Rightarrow> ctx \<Rightarrow> rbt \<Rightarrow> (nptr \<times> rbstate) option \<Rightarrow> bool" where
  "ins_step s k T0 res \<longleftrightarrow> (\<exists>y s' T. res = Some (y, s') \<and> same_dom s s' \<and> zip_at s' k T \<and>
     inord T = inord T0 \<and> ins_ready k T \<and>
     (y = ptr_of T \<and> t_col T = RED \<or> t_col T = BLACK \<and> insertFixup_loop y s' = Some s'))"

lemma ins_step_up:
  assumes "\<exists>s'. res = Some (Nd a, s') \<and> same_dom s s' \<and> zip_at s' k (Br l a RED d r)"
    and "inord (Br l a RED d r) = inord T0" "ins_ready k (Br l a RED d r)"
  shows "ins_step s k T0 res"
  using assms unfolding ins_step_def by fastforce

lemma ins_step_done:
  assumes "\<exists>s'. res = Some (Nd x, s') \<and> same_dom s s' \<and> zip_at s' k (plug1 f (Br l x c d r))"
    and "inord (plug1 f (Br l x c d r)) = inord T0" "ins_ready k (plug1 f (Br l x c d r))"
    and "f_col f = BLACK"
  shows "ins_step s k T0 res"
proof -
  obtain s' where s': "res = Some (Nd x, s')" "same_dom s s'" "zip_at s' k (plug1 f (Br l x c d r))"
    using assms(1) by blast
  have "insertFixup_loop (Nd x) s' = Some s'"
    using s'(3) assms(4) by (intro insertFixup_loop_done) (simp_all add: zip_at_Cons)
  then show ?thesis using s' assms unfolding ins_step_def by (metis t_col_plug1)
qed

lemma insertFixup_step_L:
  assumes z: "zip_at s (f # FL g gc gd U # k) (Br l x RED d r)" and f: "f_col f = RED"
    and ready: "ins_ready (f # FL g gc gd U # k) (Br l x RED d r)"
  shows "ins_step s k (plug1 (FL g gc gd U) (plug1 f (Br l x RED d r))) (insertFixup_body (Nd x) s)"
proof (cases "t_col U = RED")
  case True
  then obtain u1 u du u2 where [simp]: "U = Br u1 u RED du u2" by (cases U) auto
  show ?thesis
    by (rule ins_step_up [OF insertFixup_body_L_red [OF z [simplified]]])
      (use ready f in \<open>auto simp: ins_ready_def invh_plug1 paint_plug1 split: if_splits\<close>)
next
  case False
  then have U: "t_col U = BLACK" by simp
  show ?thesis
  proof (cases f)
    case [simp]: (FL p cp dp r')
    have "zip_at s k (Br (Br (Br l x RED d r) p cp dp r') g gc gd U)" using z by (simp add: zip_up)
    from insertFixup_body_L_outer [OF this U] show ?thesis
      by (intro ins_step_done [where f = "FL p BLACK dp (Br r' g RED gd U)" and x = x])
        (use ready f U in \<open>auto simp: ins_ready_def\<close>)
  next
    case [simp]: (FR l' p cp dp)
    have "zip_at s k (Br (Br l' p cp dp (Br l x RED d r)) g gc gd U)" using z by (simp add: zip_up)
    from insertFixup_body_L_inner [OF this U] show ?thesis
      by (intro ins_step_done [where f = "FL x BLACK d (Br r g RED gd U)" and x = p])
        (use ready f U in \<open>auto simp: ins_ready_def\<close>)
  qed
qed

lemma insertFixup_step_R:
  assumes z: "zip_at s (f # FR U g gc gd # k) (Br l x RED d r)" and f: "f_col f = RED"
    and ready: "ins_ready (f # FR U g gc gd # k) (Br l x RED d r)"
  shows "ins_step s k (plug1 (FR U g gc gd) (plug1 f (Br l x RED d r))) (insertFixup_body (Nd x) s)"
proof (cases "t_col U = RED")
  case True
  then obtain u1 u du u2 where [simp]: "U = Br u1 u RED du u2" by (cases U) auto
  show ?thesis
    by (rule ins_step_up [OF insertFixup_body_R_red [OF z [simplified]]])
      (use ready f in \<open>auto simp: ins_ready_def invh_plug1 paint_plug1 split: if_splits\<close>)
next
  case False
  then have U: "t_col U = BLACK" by simp
  show ?thesis
  proof (cases f)
    case [simp]: (FR l' p cp dp)
    have "zip_at s k (Br U g gc gd (Br l' p cp dp (Br l x RED d r)))" using z by (simp add: zip_up)
    from insertFixup_body_R_outer [OF this U] show ?thesis
      by (intro ins_step_done [where f = "FR (Br U g RED gd l') p BLACK dp" and x = x])
        (use ready f U in \<open>auto simp: ins_ready_def\<close>)
  next
    case [simp]: (FL p cp dp r')
    have "zip_at s k (Br U g gc gd (Br (Br l x RED d r) p cp dp r'))" using z by (simp add: zip_up)
    from insertFixup_body_R_inner [OF this U] show ?thesis
      by (intro ins_step_done [where f = "FR (Br U g RED gd l) x BLACK d" and x = p])
        (use ready f U in \<open>auto simp: ins_ready_def\<close>)
  qed
qed

lemma insertFixup_step:
  assumes "zip_at s (f # g # k) (Br l x RED d r)" "f_col f = RED" "ins_ready (f # g # k) (Br l x RED d r)"
  shows "ins_step s k (plug1 g (plug1 f (Br l x RED d r))) (insertFixup_body (Nd x) s)"
  using assms insertFixup_step_L insertFixup_step_R by (cases g) auto

lemma insertFixup_loop_ok:
  assumes "zip_at s k (Br l x RED d r)" "ins_ready k (Br l x RED d r)"
  shows "\<exists>s' T. insertFixup_loop (Nd x) s = Some s' \<and> same_dom s s' \<and> zip_at s' [] T \<and>
    inord T = inord (plug k (Br l x RED d r)) \<and> invh T \<and> invc (paint BLACK T)"
  using assms
proof (induction "length k" arbitrary: s k l x d r rule: less_induct)
  case less
  let ?X = "Br l x RED d r"
  note root = focus_is_root [OF less.prems(1)] and reads = rd_focus [OF less.prems(1)]
  show ?case
  proof (cases k)
    case Nil
    then show ?thesis
      using less.prems root by (subst insertFixup_loop.simps) (auto simp: ins_ready_def)
  next
    case [simp]: (Cons f k')
    show ?thesis
    proof (cases "f_col f = BLACK")
      case True
      then have "rbt_ok (plug k ?X)"
        using less.prems by (auto simp: ins_ready_def fits_def rbt_ok_plug simp del: plug.simps)
      then show ?thesis
        using insertFixup_loop_done [OF less.prems(1) [simplified] True]
          iffD1 [OF zip_at_plug less.prems(1)] by (auto simp: rbt_ok_def invc_paint_BLACK)
    next
      case False
      then obtain g k'' where [simp]: "k' = g # k''"
        using less.prems by (auto simp: ins_ready_def neq_Nil_conv)
      obtain y s1 T where y: "insertFixup_body (Nd x) s = Some (y, s1)" "same_dom s s1" "zip_at s1 k'' T"
        "inord T = inord (plug1 g (plug1 f ?X))" "ins_ready k'' T"
        "y = ptr_of T \<and> t_col T = RED \<or> t_col T = BLACK \<and> insertFixup_loop y s1 = Some s1"
        using insertFixup_step [of s f g k'' l x d r] less.prems False by (auto simp: ins_step_def)
      have "zip_at s k' (plug1 f ?X)" using less.prems(1) by (simp add: zip_at_Cons)
      then have "rd nd_color (Nd (f_addr f)) s = Some RED" using rd_color_ptr_of False by fastforce
      then have loop: "insertFixup_loop (Nd x) s = insertFixup_loop y s1"
        using root reads y(1) by (subst insertFixup_loop.simps) simp
      have eq: "inord (plug k'' T) = inord (plug k ?X)" using inord_plug_cong [OF y(4)] by simp
      from y(6) show ?thesis
      proof
        assume "y = ptr_of T \<and> t_col T = RED"
        then obtain l' a d' r' where T: "T = Br l' a RED d' r'" "y = Nd a" by (cases T) auto
        from less.hyps [of k'' s1 l' a d' r'] y(3,5) T show ?thesis
          using loop eq y(2) by (auto intro: same_dom_trans)
      next
        assume b: "t_col T = BLACK \<and> insertFixup_loop y s1 = Some s1"
        with y(5) have "rbt_ok (plug k'' T)" by (auto simp: ins_ready_def rbt_ok_plug fits_def)
        then show ?thesis
          using loop eq b y(2) iffD1 [OF zip_at_plug y(3)] by (auto simp: rbt_ok_def invc_paint_BLACK)
      qed
    qed
  qed
qed

lemma insertFixup_ok:
  assumes "zip_at s k (Br l x RED d r)" "ins_ready k (Br l x RED d r)"
  shows "\<exists>s' T. insertFixup (Nd x) s = Some s' \<and> same_dom s s' \<and> zip_at s' [] T \<and>
    inord T = inord (plug k (Br l x RED d r)) \<and> rbt_ok T"
proof -
  obtain s1 T where s1: "insertFixup_loop (Nd x) s = Some s1" "same_dom s s1" "zip_at s1 [] T"
    "inord T = inord (plug k (Br l x RED d r))" "invh T" "invc (paint BLACK T)"
    using insertFixup_loop_ok [OF assms] by blast
  have "x \<in> set (addrs (plug k (Br l x RED d r)))"
    by simp
  with s1(4) have "x \<in> set (addrs T)" by (simp add: addrs_inord)
  then obtain l' a c d' r' where T: "T = Br l' a c d' r'" by (cases T) auto
  from s1(3) obtain s2 where "set_color (Nd a) BLACK s1 = Some s2" "zip_at s2 [] (paint BLACK T)"
    "same_dom s1 s2" unfolding T by (auto elim: set_colorE)
  moreover have "rb_root s1 = Nd a" using s1(3) T by (simp add: zip_at_def)
  ultimately show ?thesis
    using s1 by (intro exI [of _ s2] exI [of _ "paint BLACK T"])
      (auto simp: insertFixup_def rbt_ok_def intro: same_dom_trans)
qed

section \<open>Insertion\<close>

text \<open>What the descent of \<open>rbtInsert\<close> answers when the key is there already.\<close>

definition dup_status :: "u32 \<Rightarrow> u32 \<Rightarrow> RbtStatus" where
  "dup_status sz cs = (if sz = cs then RBT_STATUS_DUPLICATE_KEY
     else if sz \<le> cs then RBT_STATUS_REALLOC_SMALL else RBT_STATUS_REALLOC_LARGE)"

definition find_ends :: "u32 \<Rightarrow> u32 \<Rightarrow> rbstate \<Rightarrow> rbt \<Rightarrow> (RbtStatus + nptr) option \<Rightarrow> bool" where
  "find_ends key sz s t res \<longleftrightarrow>
     (\<exists>a d. (a, d) \<in> set (inord t) \<and> o_key d = key \<and> res = Some (Inl (dup_status sz (o_size d)))) \<or>
     (\<exists>k. zip_at s k Lf \<and> plug k Lf = t \<and> res = Some (Inr (ctx_ptr k)) \<and>
        (\<forall>x \<in> set (keys (before k)). x < key) \<and> (\<forall>x \<in> set (keys (after k)). key < x))"

lemma rbtInsert_find_ok:
  assumes "zip_at s k t" "sorted_keys (inord t)"
    and "\<forall>x \<in> set (keys (before k)). x < key" "\<forall>x \<in> set (keys (after k)). key < x"
  shows "find_ends key sz s (plug k t) (rbtInsert_find key sz (ptr_of t) (ctx_ptr k) s)"
  using assms
proof (induction t arbitrary: k)
  case Lf
  have "rbtInsert_find key sz SENTINEL (ctx_ptr k) s = Some (Inr (ctx_ptr k))"
    by (subst rbtInsert_find.simps) simp
  with Lf show ?case by (auto simp: find_ends_def)
next
  case (Br l a c d r)
  note reads = rd_focus [OF Br.prems(1)]
  have srt: "sorted_keys (inord l)" "sorted_keys (inord r)"
    "\<forall>x \<in> set (keys (inord l)). x < o_key d" "\<forall>x \<in> set (keys (inord r)). o_key d < x"
    using Br.prems(2) by (auto simp: sorted_keys_def sorted_wrt_append)
  have zl: "zip_at s (FL a c d r # k) l" and zr: "zip_at s (FR l a c d # k) r"
    using Br.prems(1) by (simp_all add: zip_up)
  consider "key = o_key d" | "key < o_key d" | "o_key d < key" by fastforce
  then show ?case
  proof cases
    case 1
    then have "rbtInsert_find key sz (Nd a) (ctx_ptr k) s = Some (Inl (dup_status sz (o_size d)))"
      using reads by (subst rbtInsert_find.simps) (simp add: dup_status_def)
    with 1 show ?thesis by (auto simp: find_ends_def inord_plug)
  next
    case 2
    then have eq: "rbtInsert_find key sz (Nd a) (ctx_ptr k) s = rbtInsert_find key sz (ptr_of l) (Nd a) s"
      using reads by (subst rbtInsert_find.simps) auto
    have "\<forall>x \<in> set (keys (after (FL a c d r # k))). key < x"
      using 2 srt(4) Br.prems(4) by (auto dest: less_trans)
    from Br.IH(1) [OF zl srt(1) _ this] Br.prems(3) show ?thesis by (simp add: eq)
  next
    case 3
    then have eq: "rbtInsert_find key sz (Nd a) (ctx_ptr k) s = rbtInsert_find key sz (ptr_of r) (Nd a) s"
      using reads by (subst rbtInsert_find.simps) auto
    have "\<forall>x \<in> set (keys (before (FR l a c d # k))). x < key"
      using 3 srt(3) Br.prems(3) by (auto dest: less_trans)
    from Br.IH(2) [OF zr srt(2) this] Br.prems(4) show ?thesis by (simp add: eq)
  qed
qed

text \<open>A node that is not in use, linked below the end of the descent.\<close>

lemmas ins_link_defs = rbtInsert_link_def rbtInsert_node_def payload_of_def

lemma rbtInsert_link_ok:
  assumes z: "zip_at s k Lf" and fresh: "rb_heap s (Nd x) = None"
    and lt: "\<forall>y \<in> set (keys (before k)). y < key" and gt: "\<forall>y \<in> set (keys (after k)). key < y"
  shows "\<exists>s'. rbtInsert_link (ctx_ptr k) key (Nd x)
      (s\<lparr>rb_heap := (rb_heap s)(Nd x \<mapsto> rbtInsert_node key sz p (ctx_ptr k))\<rparr>) = Some s' \<and>
    zip_at s' k (Br Lf x RED ((payload_of p)\<lparr>o_key := key, o_size := sz\<rparr>) Lf) \<and>
    dom (rb_heap s') = insert (Nd x) (dom (rb_heap s))"
proof (cases k)
  case Nil
  with z fresh show ?thesis by (auto simp: ins_link_defs link_defs shape_defs frame_simps)
next
  case (Cons f k')
  then show ?thesis
  proof (cases f)
    case (FL a c d r)
    with Cons z fresh gt zip_fresh [OF z fresh] show ?thesis
      by (auto simp: ins_link_defs link_defs shape_defs frame_simps not_le)
  next
    case (FR l a c d)
    with Cons z fresh lt zip_fresh [OF z fresh] show ?thesis
      by (auto simp: ins_link_defs link_defs shape_defs frame_simps not_le)
  qed
qed

lemma rbtInsert_present:
  assumes "rep s t" "(a, d) \<in> set (inord t)"
  shows "rbtInsert mal (o_key d) sz p s = Some (dup_status sz (o_size d), s)"
proof -
  have z: "zip_at s [] t" and st: "sorted_keys (inord t)" using assms(1) by (simp_all add: rep_def)
  have "find_ends (o_key d) sz s t (rbtInsert_find (o_key d) sz (rb_root s) NULL s)"
    using rbtInsert_find_ok [OF z st, of "o_key d"] z by (simp add: zip_at_def)
  then consider b e where "(b, e) \<in> set (inord t)" "o_key e = o_key d"
      "rbtInsert_find (o_key d) sz (rb_root s) NULL s = Some (Inl (dup_status sz (o_size e)))"
    | k where "plug k Lf = t" "\<forall>x \<in> set (keys (before k)). x < o_key d" "\<forall>x \<in> set (keys (after k)). o_key d < x"
    unfolding find_ends_def by blast
  then show ?thesis
  proof cases
    case 1
    then have "e = d" using st assms(2) sorted_keys_inj by metis
    with 1 show ?thesis by (simp add: rbtInsert_def)
  next
    case 2
    have "o_key d \<in> set (keys (inord t))" using assms(2) by (auto simp: in_keys)
    with 2 show ?thesis by (auto simp: inord_plug)
  qed
qed

lemma rbtInsert_absent:
  assumes t: "rep s t" and mal: "malloc_ok mal" and new: "key \<notin> set (keys (inord t))"
  shows "mal s = NULL \<and> rbtInsert mal key sz p s = Some (RBT_STATUS_MEM_EXHAUSTED, s) \<or>
    (\<exists>x s' t' xs ys. mal s = Nd x \<and> rbtInsert mal key sz p s = Some (RBT_STATUS_OK, s') \<and> rep s' t' \<and>
       inord t = xs @ ys \<and> x \<notin> set (addrs t) \<and>
       inord t' = xs @ (x, (payload_of p)\<lparr>o_key := key, o_size := sz\<rparr>) # ys)"
proof -
  have z: "zip_at s [] t" and st: "sorted_keys (inord t)" and ok: "rbt_ok t"
    and hp: "heap_is s (set (addrs t))" using t by (simp_all add: rep_def)
  have "find_ends key sz s t (rbtInsert_find key sz (rb_root s) NULL s)"
    using rbtInsert_find_ok [OF z st, of key] z by (simp add: zip_at_def)
  then obtain k where k: "zip_at s k Lf" "plug k Lf = t"
      "rbtInsert_find key sz (rb_root s) NULL s = Some (Inr (ctx_ptr k))"
      "\<forall>x \<in> set (keys (before k)). x < key" "\<forall>x \<in> set (keys (after k)). key < x"
    using new unfolding find_ends_def in_keys by blast
  show ?thesis
  proof (cases "mal s = NULL")
    case True
    then show ?thesis using k(3) by (simp add: rbtInsert_def)
  next
    case False
    then obtain x where x: "mal s = Nd x" "rb_heap s (Nd x) = None" using mal by (auto simp: malloc_ok_def)
    let ?d = "(payload_of p)\<lparr>o_key := key, o_size := sz\<rparr>" and ?X = "Br Lf x RED ((payload_of p)\<lparr>o_key := key, o_size := sz\<rparr>) Lf"
    obtain s1 where s1: "rbtInsert_link (ctx_ptr k) key (Nd x)
      (s\<lparr>rb_heap := (rb_heap s)(Nd x \<mapsto> rbtInsert_node key sz p (ctx_ptr k))\<rparr>) = Some s1"
      "zip_at s1 k ?X" "dom (rb_heap s1) = insert (Nd x) (dom (rb_heap s))"
      using rbtInsert_link_ok [OF k(1) x(2) k(4,5)] by blast
    have "ins_ready k ?X" using ok k(2) rbt_ok_plug [of k Lf] by (auto simp: ins_ready_def)
    with s1(2) obtain s2 T where s2: "insertFixup (Nd x) s1 = Some s2" "same_dom s1 s2" "zip_at s2 [] T"
      "inord T = inord (plug k ?X)" "rbt_ok T" using insertFixup_ok by blast
    have io: "inord T = before k @ (x, ?d) # after k" "inord t = before k @ after k"
      using s2(4) k(2) by (auto simp: inord_plug)
    have "rbtInsert mal key sz p s = Some (RBT_STATUS_OK, s2)"
      using k(3) x s1(1) s2(1) by (simp add: rbtInsert_def)
    moreover have "rep s2 T"
      using s2(2,3,5) s1(3) hp st k(4,5) io
      by (auto simp: rep_def sorted_keys_mid heap_is_def same_dom_def addrs_inord)
    moreover have "x \<notin> set (addrs t)" using zip_fresh [OF z x(2)] by simp
    ultimately show ?thesis using io x by auto
  qed
qed
end
