(* ===== verification/RbDelete.thy ===== *)
theory RbDelete
  imports RbInsert
begin

text \<open>
  \<open>deleteFixup\<close> and \<open>rbtErase\<close>: the repair loop works at a hole whose black height is
  one short and moves it up or removes it; erasing a node removes exactly its entry and
  frees exactly one node. The leaf \<open>SENTINEL\<close> stands in for a missing node, and its
  parent field is then the hole's parent.
\<close>

section \<open>The hole\<close>

definition hole :: "rbstate \<Rightarrow> ctx \<Rightarrow> rbt \<Rightarrow> bool" where
  "hole s k t \<longleftrightarrow> zip_at s k t \<and> (t = Lf \<longrightarrow> rd nd_parent SENTINEL s = Some (ctx_ptr k))"

lemma hole_zip: "hole s k t \<Longrightarrow> zip_at s k t"
  by (simp add: hole_def)

lemma hole_parent: "hole s k t \<Longrightarrow> rd nd_parent (ptr_of t) s = Some (ctx_ptr k)"
  by (cases t) (auto simp: hole_def rd_focus)

lemma hole_keep:
  assumes "hole s k t" "same_dom s s'" "zip_at s' k' t" "ctx_ptr k' = ctx_ptr k"
  shows "hole s' k' t"
  using assms by (auto simp: hole_def same_dom_def rd_def)

section \<open>The parts of one iteration, the hole a left child\<close>

lemma deleteFixup_red_L_ok:
  assumes h: "hole s (FL p cp dp (Br ul w RED dw ur) # k) t"
  shows "\<exists>s'. deleteFixup_red_L (ptr_of t) (Nd w) s = Some (ptr_of ul, s') \<and> same_dom s s' \<and>
    hole s' (FL p RED dp ul # FL w BLACK dw ur # k) t"
proof -
  have zw: "zip_at s (FR t p cp dp # k) (Br ul w RED dw ur)" using hole_zip [OF h] by (simp add: zip_up)
  obtain s1 where s1: "set_color (Nd w) BLACK s = Some s1" "zip_at s1 (FR t p cp dp # k) (Br ul w BLACK dw ur)"
    "same_dom s s1" by (rule set_colorE [OF zw])
  then have h1: "hole s1 (FL p cp dp (Br ul w BLACK dw ur) # k) t"
    by (intro hole_keep [OF h]) (simp_all add: zip_up)
  then have "zip_at s1 k (Br t p cp dp (Br ul w BLACK dw ur))" by (simp add: hole_def zip_up)
  then obtain s2 where s2: "set_color (Nd p) RED s1 = Some s2" "zip_at s2 k (Br t p RED dp (Br ul w BLACK dw ur))"
    "same_dom s1 s2" by (rule set_colorE)
  from s2(2) obtain s3 where s3: "rotateLeft (Nd p) s2 = Some s3" "zip_at s3 k (Br (Br t p RED dp ul) w BLACK dw ur)"
    "same_dom s2 s3" by (rule rotateLeftE)
  have h3: "hole s3 (FL p RED dp ul # FL w BLACK dw ur # k) t"
    using s1(3) s2(3) s3 by (intro hole_keep [OF h]) (auto simp: zip_up intro: same_dom_trans)
  then have zp: "zip_at s3 (FL w BLACK dw ur # k) (Br t p RED dp ul)" by (simp add: hole_def zip_up)
  have "deleteFixup_red_L (ptr_of t) (Nd w) s = Some (ptr_of ul, s3)"
    using rd_focus [OF zw] hole_parent [OF h1] hole_parent [OF h3] rd_focus(2) [OF zp] s1(1) s2(1) s3(1)
    by (simp add: deleteFixup_red_L_def)
  with h3 s1(3) s2(3) s3(3) show ?thesis by (auto intro: same_dom_trans)
qed

lemma deleteFixup_near_L_ok:
  assumes h: "hole s (FL p cp dp (Br (Br a v RED dv b) w BLACK dw ur) # k) t" and ur: "t_col ur = BLACK"
  shows "\<exists>s'. deleteFixup_near_L (ptr_of t) (Nd w) s = Some (Nd v, s') \<and> same_dom s s' \<and>
    hole s' (FL p cp dp (Br a v BLACK dv (Br b w RED dw ur)) # k) t"
proof -
  let ?k = "FR t p cp dp # k"
  have zw: "zip_at s ?k (Br (Br a v RED dv b) w BLACK dw ur)" using hole_zip [OF h] by (simp add: zip_up)
  then have zv: "zip_at s (FL w BLACK dw ur # ?k) (Br a v RED dv b)"
    and zr: "zip_at s (FR (Br a v RED dv b) w BLACK dw # ?k) ur" by (simp_all add: zip_up)
  obtain s1 where s1: "set_color (Nd v) BLACK s = Some s1" "zip_at s1 (FL w BLACK dw ur # ?k) (Br a v BLACK dv b)"
    "same_dom s s1" by (rule set_colorE [OF zv])
  then have "zip_at s1 ?k (Br (Br a v BLACK dv b) w BLACK dw ur)" by (simp add: zip_up)
  then obtain s2 where s2: "set_color (Nd w) RED s1 = Some s2" "zip_at s2 ?k (Br (Br a v BLACK dv b) w RED dw ur)"
    "same_dom s1 s2" by (rule set_colorE)
  from s2(2) obtain s3 where s3: "rotateRight (Nd w) s2 = Some s3" "zip_at s3 ?k (Br a v BLACK dv (Br b w RED dw ur))"
    "same_dom s2 s3" by (rule rotateRightE)
  have h3: "hole s3 (FL p cp dp (Br a v BLACK dv (Br b w RED dw ur)) # k) t"
    using s1(3) s2(3) s3 by (intro hole_keep [OF h]) (auto simp: zip_up intro: same_dom_trans)
  then have zp: "zip_at s3 k (Br t p cp dp (Br a v BLACK dv (Br b w RED dw ur)))" by (simp add: hole_def zip_up)
  have "deleteFixup_near_L (ptr_of t) (Nd w) s = Some (Nd v, s3)"
    using ur rd_focus [OF zw] rd_color_ptr_of [OF zr] hole_parent [OF h3] rd_focus(2) [OF zp] s1(1) s2(1) s3(1)
    by (simp add: deleteFixup_near_L_def)
  with h3 s1(3) s2(3) s3(3) show ?thesis by (auto intro: same_dom_trans)
qed

lemma deleteFixup_last_L_ok:
  assumes h: "hole s (FL p cp dp (Br ul w cw dw (Br a v cv dv b)) # k) t"
  shows "\<exists>s'. deleteFixup_last_L (ptr_of t) (Nd w) s = Some (rb_root s', s') \<and> same_dom s s' \<and>
    zip_at s' k (Br (Br t p BLACK dp ul) w cp dw (Br a v BLACK dv b))"
proof -
  let ?V = "Br a v cv dv b"
  have zw: "zip_at s (FR t p cp dp # k) (Br ul w cw dw ?V)" and zp: "zip_at s k (Br t p cp dp (Br ul w cw dw ?V))"
    using hole_zip [OF h] by (simp_all add: zip_up)
  obtain s1 where s1: "set_color (Nd w) cp s = Some s1" "zip_at s1 (FR t p cp dp # k) (Br ul w cp dw ?V)"
    "same_dom s s1" by (rule set_colorE [OF zw])
  then have "zip_at s1 k (Br t p cp dp (Br ul w cp dw ?V))" by (simp add: zip_up)
  then obtain s2 where s2: "set_color (Nd p) BLACK s1 = Some s2" "zip_at s2 k (Br t p BLACK dp (Br ul w cp dw ?V))"
    "same_dom s1 s2" by (rule set_colorE)
  then have zw2: "zip_at s2 (FR t p BLACK dp # k) (Br ul w cp dw ?V)"
    and zv: "zip_at s2 (FR ul w cp dw # FR t p BLACK dp # k) ?V" by (simp_all add: zip_up)
  from zv obtain s3 where s3: "set_color (Nd v) BLACK s2 = Some s3"
    "zip_at s3 (FR ul w cp dw # FR t p BLACK dp # k) (Br a v BLACK dv b)" "same_dom s2 s3" by (rule set_colorE)
  then have "zip_at s3 k (Br t p BLACK dp (Br ul w cp dw (Br a v BLACK dv b)))" by (simp add: zip_up)
  then obtain s4 where s4: "rotateLeft (Nd p) s3 = Some s4"
    "zip_at s4 k (Br (Br t p BLACK dp ul) w cp dw (Br a v BLACK dv b))" "same_dom s3 s4" by (rule rotateLeftE)
  have "deleteFixup_last_L (ptr_of t) (Nd w) s = Some (rb_root s4, s4)"
    using hole_parent [OF h] rd_focus [OF zp] rd_focus(2) [OF zw2] s1(1) s2(1) s3(1) s4(1)
    by (simp add: deleteFixup_last_L_def)
  with s1(3) s2(3) s3(3) s4 show ?thesis by (auto intro: same_dom_trans)
qed

section \<open>The parts of one iteration, the hole a right child\<close>

lemma deleteFixup_red_R_ok:
  assumes h: "hole s (FR (Br ur w RED dw ul) p cp dp # k) t"
  shows "\<exists>s'. deleteFixup_red_R (ptr_of t) (Nd w) s = Some (ptr_of ul, s') \<and> same_dom s s' \<and>
    hole s' (FR ul p RED dp # FR ur w BLACK dw # k) t"
proof -
  have zw: "zip_at s (FL p cp dp t # k) (Br ur w RED dw ul)" using hole_zip [OF h] by (simp add: zip_up)
  obtain s1 where s1: "set_color (Nd w) BLACK s = Some s1" "zip_at s1 (FL p cp dp t # k) (Br ur w BLACK dw ul)"
    "same_dom s s1" by (rule set_colorE [OF zw])
  then have h1: "hole s1 (FR (Br ur w BLACK dw ul) p cp dp # k) t"
    by (intro hole_keep [OF h]) (simp_all add: zip_up)
  then have "zip_at s1 k (Br (Br ur w BLACK dw ul) p cp dp t)" by (simp add: hole_def zip_up)
  then obtain s2 where s2: "set_color (Nd p) RED s1 = Some s2" "zip_at s2 k (Br (Br ur w BLACK dw ul) p RED dp t)"
    "same_dom s1 s2" by (rule set_colorE)
  from s2(2) obtain s3 where s3: "rotateRight (Nd p) s2 = Some s3" "zip_at s3 k (Br ur w BLACK dw (Br ul p RED dp t))"
    "same_dom s2 s3" by (rule rotateRightE)
  have h3: "hole s3 (FR ul p RED dp # FR ur w BLACK dw # k) t"
    using s1(3) s2(3) s3 by (intro hole_keep [OF h]) (auto simp: zip_up intro: same_dom_trans)
  then have zp: "zip_at s3 (FR ur w BLACK dw # k) (Br ul p RED dp t)" by (simp add: hole_def zip_up)
  have "deleteFixup_red_R (ptr_of t) (Nd w) s = Some (ptr_of ul, s3)"
    using rd_focus [OF zw] hole_parent [OF h1] hole_parent [OF h3] rd_focus(1) [OF zp] s1(1) s2(1) s3(1)
    by (simp add: deleteFixup_red_R_def)
  with h3 s1(3) s2(3) s3(3) show ?thesis by (auto intro: same_dom_trans)
qed

lemma deleteFixup_near_R_ok:
  assumes h: "hole s (FR (Br ur w BLACK dw (Br b v RED dv a)) p cp dp # k) t" and ur: "t_col ur = BLACK"
  shows "\<exists>s'. deleteFixup_near_R (ptr_of t) (Nd w) s = Some (Nd v, s') \<and> same_dom s s' \<and>
    hole s' (FR (Br (Br ur w RED dw b) v BLACK dv a) p cp dp # k) t"
proof -
  let ?k = "FL p cp dp t # k"
  have zw: "zip_at s ?k (Br ur w BLACK dw (Br b v RED dv a))" using hole_zip [OF h] by (simp add: zip_up)
  then have zv: "zip_at s (FR ur w BLACK dw # ?k) (Br b v RED dv a)"
    and zr: "zip_at s (FL w BLACK dw (Br b v RED dv a) # ?k) ur" by (simp_all add: zip_up)
  obtain s1 where s1: "set_color (Nd v) BLACK s = Some s1" "zip_at s1 (FR ur w BLACK dw # ?k) (Br b v BLACK dv a)"
    "same_dom s s1" by (rule set_colorE [OF zv])
  then have "zip_at s1 ?k (Br ur w BLACK dw (Br b v BLACK dv a))" by (simp add: zip_up)
  then obtain s2 where s2: "set_color (Nd w) RED s1 = Some s2" "zip_at s2 ?k (Br ur w RED dw (Br b v BLACK dv a))"
    "same_dom s1 s2" by (rule set_colorE)
  from s2(2) obtain s3 where s3: "rotateLeft (Nd w) s2 = Some s3" "zip_at s3 ?k (Br (Br ur w RED dw b) v BLACK dv a)"
    "same_dom s2 s3" by (rule rotateLeftE)
  have h3: "hole s3 (FR (Br (Br ur w RED dw b) v BLACK dv a) p cp dp # k) t"
    using s1(3) s2(3) s3 by (intro hole_keep [OF h]) (auto simp: zip_up intro: same_dom_trans)
  then have zp: "zip_at s3 k (Br (Br (Br ur w RED dw b) v BLACK dv a) p cp dp t)" by (simp add: hole_def zip_up)
  have "deleteFixup_near_R (ptr_of t) (Nd w) s = Some (Nd v, s3)"
    using ur rd_focus [OF zw] rd_color_ptr_of [OF zr] hole_parent [OF h3] rd_focus(1) [OF zp] s1(1) s2(1) s3(1)
    by (simp add: deleteFixup_near_R_def)
  with h3 s1(3) s2(3) s3(3) show ?thesis by (auto intro: same_dom_trans)
qed

lemma deleteFixup_last_R_ok:
  assumes h: "hole s (FR (Br (Br b v cv dv a) w cw dw ul) p cp dp # k) t"
  shows "\<exists>s'. deleteFixup_last_R (ptr_of t) (Nd w) s = Some (rb_root s', s') \<and> same_dom s s' \<and>
    zip_at s' k (Br (Br b v BLACK dv a) w cp dw (Br ul p BLACK dp t))"
proof -
  let ?V = "Br b v cv dv a"
  have zw: "zip_at s (FL p cp dp t # k) (Br ?V w cw dw ul)" and zp: "zip_at s k (Br (Br ?V w cw dw ul) p cp dp t)"
    using hole_zip [OF h] by (simp_all add: zip_up)
  obtain s1 where s1: "set_color (Nd w) cp s = Some s1" "zip_at s1 (FL p cp dp t # k) (Br ?V w cp dw ul)"
    "same_dom s s1" by (rule set_colorE [OF zw])
  then have "zip_at s1 k (Br (Br ?V w cp dw ul) p cp dp t)" by (simp add: zip_up)
  then obtain s2 where s2: "set_color (Nd p) BLACK s1 = Some s2" "zip_at s2 k (Br (Br ?V w cp dw ul) p BLACK dp t)"
    "same_dom s1 s2" by (rule set_colorE)
  then have zw2: "zip_at s2 (FL p BLACK dp t # k) (Br ?V w cp dw ul)"
    and zv: "zip_at s2 (FL w cp dw ul # FL p BLACK dp t # k) ?V" by (simp_all add: zip_up)
  from zv obtain s3 where s3: "set_color (Nd v) BLACK s2 = Some s3"
    "zip_at s3 (FL w cp dw ul # FL p BLACK dp t # k) (Br b v BLACK dv a)" "same_dom s2 s3" by (rule set_colorE)
  then have "zip_at s3 k (Br (Br (Br b v BLACK dv a) w cp dw ul) p BLACK dp t)" by (simp add: zip_up)
  then obtain s4 where s4: "rotateRight (Nd p) s3 = Some s4"
    "zip_at s4 k (Br (Br b v BLACK dv a) w cp dw (Br ul p BLACK dp t))" "same_dom s3 s4" by (rule rotateRightE)
  have "deleteFixup_last_R (ptr_of t) (Nd w) s = Some (rb_root s4, s4)"
    using hole_parent [OF h] rd_focus [OF zp] rd_focus(1) [OF zw2] s1(1) s2(1) s3(1) s4(1)
    by (simp add: deleteFixup_last_R_def)
  with s1(3) s2(3) s3(3) s4 show ?thesis by (auto intro: same_dom_trans)
qed

section \<open>One iteration\<close>

definition del_ready :: "ctx \<Rightarrow> rbt \<Rightarrow> bool" where
  "del_ready k t \<longleftrightarrow> cctx k \<and> hctx k (Suc (bh t)) \<and> invc (paint BLACK t) \<and> invh t"

definition del_measure :: "ctx \<Rightarrow> rbt \<Rightarrow> nat" where
  "del_measure k t = 2 * length k + (if t_col t = BLACK then 1 else 0)"

text \<open>
  An iteration keeps the contents and either brings the hole closer to the root (or to a
  red node, where the loop ends) or repairs the whole tree and ends the loop.
\<close>

definition del_step :: "rbstate \<Rightarrow> nat \<Rightarrow> (nat \<times> payload) list \<Rightarrow> (nptr \<times> rbstate) option \<Rightarrow> bool" where
  "del_step s n xs res \<longleftrightarrow> (\<exists>s' k t. res = Some (ptr_of t, s') \<and> same_dom s s' \<and> hole s' k t \<and>
     inord (plug k t) = xs \<and> (del_ready k t \<and> del_measure k t < n \<or> k = [] \<and> rbt_ok t))"

lemma paint_same: "t_col t = c \<Longrightarrow> paint c t = t"
  by (cases t) auto

lemma del_step_up:
  assumes "res = Some (Nd p, s')" "same_dom s s'" "zip_at s' k (Br l p c d r)"
    and "inord (plug k (Br l p c d r)) = xs" "del_ready k (Br l p c d r)" "del_measure k (Br l p c d r) < n"
  shows "del_step s n xs res"
  unfolding del_step_def using assms by (intro exI [of _ s'] exI [of _ k] exI [of _ "Br l p c d r"]) (auto simp: hole_def)

lemma del_step_done:
  assumes "\<exists>s'. res = Some (rb_root s', s') \<and> same_dom s s' \<and> zip_at s' k (Br l p c d r)"
    and "inord (plug k (Br l p c d r)) = xs" "rbt_ok (plug k (Br l p c d r))"
  shows "del_step s n xs res"
proof -
  obtain s' where s': "res = Some (rb_root s', s')" "same_dom s s'" "zip_at s' k (Br l p c d r)"
    using assms(1) by blast
  then have "zip_at s' [] (plug k (Br l p c d r))" by (simp add: zip_at_plug [of s' k])
  moreover from this have "rb_root s' = ptr_of (plug k (Br l p c d r))" by (simp add: zip_at_def)
  ultimately show ?thesis
    unfolding del_step_def using s'(1,2) assms(2,3) by (intro exI [of _ s'] exI [of _ "[]"]) (auto simp: hole_def)
qed

lemma deleteFixup_black_L_step:
  assumes h: "hole s (FL p cp dp (Br ul w BLACK dw ur) # k) t" and t: "t_col t = BLACK"
    and ready: "del_ready (FL p cp dp (Br ul w BLACK dw ur) # k) t"
    and n: "2 * length k + (if cp = BLACK then 1 else 0) < n"
  shows "del_step s n (inord (plug k (Br t p cp dp (Br ul w BLACK dw ur))))
    (deleteFixup_black_L (ptr_of t) (Nd w) s)"
proof -
  note pure = ready [unfolded del_ready_def paint_same [OF t]]
  have zw: "zip_at s (FR t p cp dp # k) (Br ul w BLACK dw ur)" using hole_zip [OF h] by (simp add: zip_up)
  then have zl: "zip_at s (FL w BLACK dw ur # FR t p cp dp # k) ul"
    and zr: "zip_at s (FR ul w BLACK dw # FR t p cp dp # k) ur" by (simp_all add: zip_up)
  note reads = rd_focus [OF zw] rd_color_ptr_of [OF zl] rd_color_ptr_of [OF zr]
  consider "t_col ul = BLACK" "t_col ur = BLACK" | "t_col ur = RED" | "t_col ul = RED" "t_col ur = BLACK"
    using nodeColor.exhaust by blast
  then show ?thesis
  proof cases
    case 1
    obtain s1 where s1: "set_color (Nd w) RED s = Some s1" "zip_at s1 (FR t p cp dp # k) (Br ul w RED dw ur)"
      "same_dom s s1" by (rule set_colorE [OF zw])
    then have "hole s1 (FL p cp dp (Br ul w RED dw ur) # k) t" by (intro hole_keep [OF h]) (simp_all add: zip_up)
    from hole_parent [OF this] have "deleteFixup_black_L (ptr_of t) (Nd w) s = Some (Nd p, s1)"
      using 1 reads s1(1) by (simp add: deleteFixup_black_L_def)
    moreover have "zip_at s1 k (Br t p cp dp (Br ul w RED dw ur))" using s1(2) by (simp add: zip_up)
    ultimately show ?thesis
      by (rule del_step_up [OF _ s1(3)])
        (use pure 1 n t in \<open>auto simp: inord_plug del_ready_def del_measure_def\<close>)
  next
    case 2
    then obtain a v dv b where u [simp]: "ur = Br a v RED dv b" by (cases ur) auto
    have "deleteFixup_black_L (ptr_of t) (Nd w) s = deleteFixup_last_L (ptr_of t) (Nd w) s"
      using 2 reads by (simp add: deleteFixup_black_L_def deleteFixup_near_L_def)
    with deleteFixup_last_L_ok [OF h [unfolded u]] show ?thesis
      by (intro del_step_done [where k = k])
        (use pure t in \<open>auto simp: inord_plug rbt_ok_plug fits_def\<close>)
  next
    case 3
    then obtain a v dv b where u [simp]: "ul = Br a v RED dv b" by (cases ul) auto
    obtain s1 where s1: "deleteFixup_near_L (ptr_of t) (Nd w) s = Some (Nd v, s1)" "same_dom s s1"
      "hole s1 (FL p cp dp (Br a v BLACK dv (Br b w RED dw ur)) # k) t"
      using deleteFixup_near_L_ok [OF h [unfolded u] 3(2)] by auto
    then have "deleteFixup_black_L (ptr_of t) (Nd w) s = deleteFixup_last_L (ptr_of t) (Nd v) s1"
      using 3 reads by (simp add: deleteFixup_black_L_def)
    with deleteFixup_last_L_ok [OF s1(3)] s1(2) show ?thesis
      by (intro del_step_done [where k = k])
        (use pure t in \<open>auto simp: inord_plug rbt_ok_plug fits_def intro: same_dom_trans\<close>)
  qed
qed

lemma deleteFixup_black_R_step:
  assumes h: "hole s (FR (Br ur w BLACK dw ul) p cp dp # k) t" and t: "t_col t = BLACK"
    and ready: "del_ready (FR (Br ur w BLACK dw ul) p cp dp # k) t"
    and n: "2 * length k + (if cp = BLACK then 1 else 0) < n"
  shows "del_step s n (inord (plug k (Br (Br ur w BLACK dw ul) p cp dp t)))
    (deleteFixup_black_R (ptr_of t) (Nd w) s)"
proof -
  note pure = ready [unfolded del_ready_def paint_same [OF t]]
  have zw: "zip_at s (FL p cp dp t # k) (Br ur w BLACK dw ul)" using hole_zip [OF h] by (simp add: zip_up)
  then have zl: "zip_at s (FR ur w BLACK dw # FL p cp dp t # k) ul"
    and zr: "zip_at s (FL w BLACK dw ul # FL p cp dp t # k) ur" by (simp_all add: zip_up)
  note reads = rd_focus [OF zw] rd_color_ptr_of [OF zl] rd_color_ptr_of [OF zr]
  consider "t_col ul = BLACK" "t_col ur = BLACK" | "t_col ur = RED" | "t_col ul = RED" "t_col ur = BLACK"
    using nodeColor.exhaust by blast
  then show ?thesis
  proof cases
    case 1
    obtain s1 where s1: "set_color (Nd w) RED s = Some s1" "zip_at s1 (FL p cp dp t # k) (Br ur w RED dw ul)"
      "same_dom s s1" by (rule set_colorE [OF zw])
    then have "hole s1 (FR (Br ur w RED dw ul) p cp dp # k) t" by (intro hole_keep [OF h]) (simp_all add: zip_up)
    from hole_parent [OF this] have "deleteFixup_black_R (ptr_of t) (Nd w) s = Some (Nd p, s1)"
      using 1 reads s1(1) by (simp add: deleteFixup_black_R_def)
    moreover have "zip_at s1 k (Br (Br ur w RED dw ul) p cp dp t)" using s1(2) by (simp add: zip_up)
    ultimately show ?thesis
      by (rule del_step_up [OF _ s1(3)])
        (use pure 1 n t in \<open>auto simp: inord_plug del_ready_def del_measure_def\<close>)
  next
    case 2
    then obtain a v dv b where u [simp]: "ur = Br b v RED dv a" by (cases ur) auto
    have "deleteFixup_black_R (ptr_of t) (Nd w) s = deleteFixup_last_R (ptr_of t) (Nd w) s"
      using 2 reads by (simp add: deleteFixup_black_R_def deleteFixup_near_R_def)
    with deleteFixup_last_R_ok [OF h [unfolded u]] show ?thesis
      by (intro del_step_done [where k = k])
        (use pure t in \<open>auto simp: inord_plug rbt_ok_plug fits_def\<close>)
  next
    case 3
    then obtain a v dv b where u [simp]: "ul = Br b v RED dv a" by (cases ul) auto
    obtain s1 where s1: "deleteFixup_near_R (ptr_of t) (Nd w) s = Some (Nd v, s1)" "same_dom s s1"
      "hole s1 (FR (Br (Br ur w RED dw b) v BLACK dv a) p cp dp # k) t"
      using deleteFixup_near_R_ok [OF h [unfolded u] 3(2)] by auto
    then have "deleteFixup_black_R (ptr_of t) (Nd w) s = deleteFixup_last_R (ptr_of t) (Nd v) s1"
      using 3 reads by (simp add: deleteFixup_black_R_def)
    with deleteFixup_last_R_ok [OF s1(3)] s1(2) show ?thesis
      by (intro del_step_done [where k = k])
        (use pure t in \<open>auto simp: inord_plug rbt_ok_plug fits_def intro: same_dom_trans\<close>)
  qed
qed

lemma deleteFixup_body_L:
  assumes h: "hole s (FL p cp dp W # k) t" and t: "t_col t = BLACK" and ready: "del_ready (FL p cp dp W # k) t"
  shows "del_step s (2 * length k + 3) (inord (plug k (Br t p cp dp W))) (deleteFixup_body (ptr_of t) s)"
proof -
  have "bh W = Suc (bh t)" using ready by (simp add: del_ready_def)
  then obtain ul w cw dw ur where W: "W = Br ul w cw dw ur" by (cases W) auto
  note pure = ready [unfolded del_ready_def paint_same [OF t] W]
  have zp: "zip_at s k (Br t p cp dp W)" and zw: "zip_at s (FR t p cp dp # k) (Br ul w cw dw ur)"
    using hole_zip [OF h] W by (simp_all add: zip_up)
  have b: "deleteFixup_body (ptr_of t) s =
      do { (w, s) \<leftarrow> deleteFixup_red_L (ptr_of t) (Nd w) s; deleteFixup_black_L (ptr_of t) w s }"
    using hole_parent [OF h] rd_focus [OF zp] W by (simp add: deleteFixup_body_def)
  show ?thesis
  proof (cases cw)
    case BLACK
    with b rd_focus [OF zw] have "deleteFixup_body (ptr_of t) s = deleteFixup_black_L (ptr_of t) (Nd w) s"
      by (simp add: deleteFixup_red_L_def)
    with deleteFixup_black_L_step [OF h [unfolded W BLACK] t ready [unfolded W BLACK]] show ?thesis
      by (simp add: W BLACK)
  next
    case RED
    obtain s1 where s1: "deleteFixup_red_L (ptr_of t) (Nd w) s = Some (ptr_of ul, s1)" "same_dom s s1"
      "hole s1 (FL p RED dp ul # FL w BLACK dw ur # k) t"
      using deleteFixup_red_L_ok [OF h [unfolded W RED]] by blast
    have "bh ul = Suc (bh t)" "t_col ul = BLACK" using pure RED by auto
    then obtain a v dv c where u: "ul = Br a v BLACK dv c" by (cases ul) auto
    have "del_ready (FL p RED dp ul # FL w BLACK dw ur # k) t"
      using pure RED by (auto simp: del_ready_def paint_same [OF t])
    from deleteFixup_black_L_step [OF s1(3) [unfolded u] t this [unfolded u], of "2 * length k + 3"]
    show ?thesis using b s1 by (auto simp: W u inord_plug del_step_def intro: same_dom_trans)
  qed
qed

lemma deleteFixup_body_R:
  assumes h: "hole s (FR W p cp dp # k) t" and t: "t_col t = BLACK" and ready: "del_ready (FR W p cp dp # k) t"
  shows "del_step s (2 * length k + 3) (inord (plug k (Br W p cp dp t))) (deleteFixup_body (ptr_of t) s)"
proof -
  have "bh W = Suc (bh t)" using ready by (simp add: del_ready_def)
  then obtain ul w cw dw ur where W: "W = Br ur w cw dw ul" by (cases W) auto
  note pure = ready [unfolded del_ready_def paint_same [OF t] W]
  have zp: "zip_at s k (Br W p cp dp t)" and zw: "zip_at s (FL p cp dp t # k) (Br ur w cw dw ul)"
    using hole_zip [OF h] W by (simp_all add: zip_up)
  have b: "deleteFixup_body (ptr_of t) s =
      do { (w, s) \<leftarrow> deleteFixup_red_R (ptr_of t) (Nd w) s; deleteFixup_black_R (ptr_of t) w s }"
    using hole_parent [OF h] rd_focus [OF zp] W zip_distinct [OF zp]
    by (auto simp: deleteFixup_body_def frame_simps)
  show ?thesis
  proof (cases cw)
    case BLACK
    with b rd_focus [OF zw] have "deleteFixup_body (ptr_of t) s = deleteFixup_black_R (ptr_of t) (Nd w) s"
      by (simp add: deleteFixup_red_R_def)
    with deleteFixup_black_R_step [OF h [unfolded W BLACK] t ready [unfolded W BLACK]] show ?thesis
      by (simp add: W BLACK)
  next
    case RED
    obtain s1 where s1: "deleteFixup_red_R (ptr_of t) (Nd w) s = Some (ptr_of ul, s1)" "same_dom s s1"
      "hole s1 (FR ul p RED dp # FR ur w BLACK dw # k) t"
      using deleteFixup_red_R_ok [OF h [unfolded W RED]] by blast
    have "bh ul = Suc (bh t)" "t_col ul = BLACK" using pure RED by auto
    then obtain a v dv c where u: "ul = Br c v BLACK dv a" by (cases ul) auto
    have "del_ready (FR ul p RED dp # FR ur w BLACK dw # k) t"
      using pure RED by (auto simp: del_ready_def paint_same [OF t])
    from deleteFixup_black_R_step [OF s1(3) [unfolded u] t this [unfolded u], of "2 * length k + 3"]
    show ?thesis using b s1 by (auto simp: W u inord_plug del_step_def intro: same_dom_trans)
  qed
qed

section \<open>The loop\<close>

lemma zip_is_root: "zip_at s k t \<Longrightarrow> ptr_of t = rb_root s \<longleftrightarrow> k = []"
  using root_ptr_in [of k SENTINEL]
  by (cases t; cases "k = []") (auto simp: focus_is_root, auto simp: zip_at_def)

lemma deleteFixup_body_step:
  assumes "hole s (f # k) t" "t_col t = BLACK" "del_ready (f # k) t"
  shows "del_step s (2 * length k + 3) (inord (plug (f # k) t)) (deleteFixup_body (ptr_of t) s)"
  using assms deleteFixup_body_L deleteFixup_body_R by (cases f) auto

lemma deleteFixup_loop_ok:
  assumes "hole s k t" "del_ready k t"
  shows "\<exists>s' k' t'. deleteFixup_loop (ptr_of t) s = Some (ptr_of t', s') \<and> same_dom s s' \<and>
    zip_at s' k' t' \<and> inord (plug k' t') = inord (plug k t) \<and> rbt_ok (plug k' (paint BLACK t'))"
  using assms
proof (induction "del_measure k t" arbitrary: s k t rule: less_induct)
  case less
  note root = zip_is_root [OF hole_zip [OF less.prems(1)]]
    and col = rd_color_ptr_of [OF hole_zip [OF less.prems(1)]]
  consider "k = []" | "t_col t = RED" "k \<noteq> []" | f k' where "t_col t = BLACK" "k = f # k'"
    by (cases k; cases "t_col t") auto
  then show ?case
  proof cases
    case 1
    then have "rbt_ok (plug k (paint BLACK t))"
      using less.prems(2) by (auto simp: del_ready_def rbt_ok_def)
    moreover have "deleteFixup_loop (ptr_of t) s = Some (ptr_of t, s)"
      using 1 root by (subst deleteFixup_loop.simps) simp
    ultimately show ?thesis using hole_zip [OF less.prems(1)] same_dom_refl by blast
  next
    case 2
    then obtain l a d r where [simp]: "t = Br l a RED d r" by (cases t) auto
    have "rbt_ok (plug k (paint BLACK t))"
      using less.prems(2) 2 by (auto simp: del_ready_def rbt_ok_plug fits_def)
    moreover have "deleteFixup_loop (ptr_of t) s = Some (ptr_of t, s)"
      using 2 root col by (subst deleteFixup_loop.simps) simp
    ultimately show ?thesis using hole_zip [OF less.prems(1)] same_dom_refl by blast
  next
    case 3
    have n: "2 * length k' + 3 = del_measure k t" using 3 by (simp add: del_measure_def)
    obtain s1 k1 t1 where s1: "deleteFixup_body (ptr_of t) s = Some (ptr_of t1, s1)" "same_dom s s1" "hole s1 k1 t1"
      "inord (plug k1 t1) = inord (plug k t)" "del_ready k1 t1 \<and> del_measure k1 t1 < del_measure k t \<or> k1 = [] \<and> rbt_ok t1"
      using deleteFixup_body_step [of s f k' t] less.prems 3 unfolding n del_step_def by auto
    have loop: "deleteFixup_loop (ptr_of t) s = deleteFixup_loop (ptr_of t1) s1"
      using 3 root col s1(1) by (subst deleteFixup_loop.simps) simp
    from s1(5) show ?thesis
    proof
      assume "del_ready k1 t1 \<and> del_measure k1 t1 < del_measure k t"
      with less.hyps [of k1 t1 s1] s1 loop show ?thesis by (metis same_dom_trans)
    next
      assume d: "k1 = [] \<and> rbt_ok t1"
      then have "deleteFixup_loop (ptr_of t1) s1 = Some (ptr_of t1, s1)"
        using zip_is_root [OF hole_zip [OF s1(3)]] by (subst deleteFixup_loop.simps) simp
      with d loop s1 show ?thesis
        by (intro exI [of _ s1] exI [of _ "[]"] exI [of _ t1]) (auto simp: hole_def rbt_ok_def paint_same)
    qed
  qed
qed

lemma set_color_BLACK_ok:
  assumes "zip_at s k t"
  shows "\<exists>s'. set_color (ptr_of t) BLACK s = Some s' \<and> zip_at s' k (paint BLACK t) \<and>
    dom (rb_heap s') = dom (rb_heap s)"
proof (cases t)
  case Lf
  then obtain n where "rb_heap s SENTINEL = Some n" using assms by (auto simp: zip_at_def sent_ok_def)
  then show ?thesis using assms Lf by (auto simp: set_color_def wr_def zip_at_def frame_simps sent_ok_def)
next
  case (Br l a c d r)
  then show ?thesis using assms set_color_focus [of s k l a c d r BLACK] by (auto simp: same_dom_def)
qed

lemma deleteFixup_ok:
  assumes "hole s k t" "del_ready k t"
  shows "\<exists>s' T. deleteFixup (ptr_of t) s = Some s' \<and> dom (rb_heap s') = dom (rb_heap s) \<and>
    zip_at s' [] T \<and> inord T = inord (plug k t) \<and> rbt_ok T"
proof -
  obtain s1 k1 t1 where s1: "deleteFixup_loop (ptr_of t) s = Some (ptr_of t1, s1)" "same_dom s s1" "zip_at s1 k1 t1"
    "inord (plug k1 t1) = inord (plug k t)" "rbt_ok (plug k1 (paint BLACK t1))"
    using deleteFixup_loop_ok [OF assms] by blast
  obtain s2 where "set_color (ptr_of t1) BLACK s1 = Some s2" "zip_at s2 k1 (paint BLACK t1)"
    "dom (rb_heap s2) = dom (rb_heap s1)" using set_color_BLACK_ok [OF s1(3)] by blast
  moreover from this have "zip_at s2 [] (plug k1 (paint BLACK t1))" by (simp add: zip_at_plug [of s2 k1])
  ultimately show ?thesis
    using s1 by (intro exI [of _ s2] exI [of _ "plug k1 (paint BLACK t1)"])
      (auto simp: deleteFixup_def inord_plug same_dom_def)
qed

section \<open>Taking a node out\<close>

text \<open>The only child of a node with at most one.\<close>

definition only_child :: "rbt \<Rightarrow> rbt \<Rightarrow> rbt" where
  "only_child l r = (if l \<noteq> Lf then l else r)"

lemma rbtErase_unlink_ok:
  assumes z: "zip_at s k (Br l y c d r)" and lf: "l = Lf \<or> r = Lf"
  shows "\<exists>s'. rbtErase_unlink (Nd y) (ptr_of (only_child l r)) s = Some s' \<and>
    hole s' k (only_child l r) \<and> rb_heap s' (Nd y) = rb_heap s (Nd y) \<and> dom (rb_heap s') = dom (rb_heap s)"
proof -
  obtain ny where ny: "rb_heap s (Nd y) = Some ny" "nd_parent ny = ctx_ptr k"
    using zip_at_node [OF z] by blast
  obtain n0 where n0: "rb_heap s SENTINEL = Some n0" using z by (auto simp: zip_at_def sent_ok_def)
  consider "k = []" | g cg dg rg k' where "k = FL g cg dg rg # k'" | g cg dg rg k' where "k = FR rg g cg dg # k'"
    by (metis f_addr.cases neq_Nil_conv)
  then show ?thesis
    using z ny n0 lf
    by cases (cases l; cases r; auto simp: rbtErase_unlink_def only_child_def hole_def link_defs shape_defs
        frame_simps sent_ok_def)+
qed

lemma plug_focus: "(z, d) \<in> set (inord t) \<Longrightarrow> \<exists>k l c r. t = plug k (Br l z c d r)"
proof (induction t)
  case (Br l a c' d' r)
  then consider "(z, d) = (a, d')" | "(z, d) \<in> set (inord l)" | "(z, d) \<in> set (inord r)" by auto
  then show ?case
  proof cases
    case 1
    then show ?thesis by (auto intro: exI [of _ "[]"])
  next
    case 2
    with Br.IH(1) obtain k l' c r' where "l = plug k (Br l' z c d r')" by blast
    then show ?thesis by (intro exI [of _ "k @ [FL a c' d' r]"]) (auto simp: plug_append)
  next
    case 3
    with Br.IH(2) obtain k l' c r' where "r = plug k (Br l' z c d r')" by blast
    then show ?thesis by (intro exI [of _ "k @ [FR l a c' d']"]) (auto simp: plug_append)
  qed
qed simp

lemma leftmost_ok:
  assumes "zip_at s k (Br l a c d r)"
  shows "\<exists>ky y cy dy ry. leftmost (Nd a) s = Some (Nd y) \<and> before ky = [] \<and>
    Br l a c d r = plug ky (Br Lf y cy dy ry)"
  using assms
proof (induction l arbitrary: k a c d r)
  case Lf
  have "leftmost (Nd a) s = Some (Nd a)"
    using rd_focus(1) [OF Lf] by (subst leftmost.simps) simp
  then show ?case by (intro exI [of _ "[]"]) auto
next
  case (Br l' a' c' d' r')
  have "zip_at s (FL a c d r # k) (Br l' a' c' d' r')" using Br.prems by (simp add: zip_up)
  from Br.IH(1) [OF this] obtain ky y cy dy ry where y: "leftmost (Nd a') s = Some (Nd y)" "before ky = []"
    "Br l' a' c' d' r' = plug ky (Br Lf y cy dy ry)" by blast
  have "leftmost (Nd a) s = leftmost (Nd a') s"
    using rd_focus(1) [OF Br.prems] by (subst leftmost.simps) simp
  moreover have "before (ky @ [FL a c d r]) = before ky" for ky
  proof (induction ky)
    case (Cons f ky)
    then show ?case by (cases f) auto
  qed simp
  ultimately show ?case using y by (intro exI [of _ "ky @ [FL a c d r]"]) (auto simp: plug_append)
qed

lemma copy_payload_focus:
  assumes "zip_at s k (Br l z c d r)"
  shows "\<exists>s'. wr (copy_payload ny) (Nd z) s = Some s' \<and>
    zip_at s' k (Br l z c ((payload_of ny)\<lparr>o_name := o_name d\<rparr>) r) \<and> same_dom s s' \<and>
    (\<forall>y. y \<noteq> Nd z \<longrightarrow> rb_heap s' y = rb_heap s y)"
proof -
  obtain n where n: "rb_heap s (Nd z) = Some n" "nd_left n = ptr_of l" "nd_right n = ptr_of r"
      "nd_parent n = ctx_ptr k" "nd_color n = c" "payload_of n = d"
    using zip_at_node [OF assms] by blast
  let ?s = "s\<lparr>rb_heap := (rb_heap s)(Nd z \<mapsto> copy_payload ny n)\<rparr>"
  have "wr (copy_payload ny) (Nd z) s = Some ?s" using n by (simp add: wr_def)
  moreover have "zip_at ?s k (Br l z c ((payload_of ny)\<lparr>o_name := o_name d\<rparr>) r)"
    using assms n by (auto simp: zip_at_def frame_simps node_at_def copy_payload_def payload_of_def)
  ultimately show ?thesis using n by (auto simp: same_dom_def)
qed

text \<open>Balance does not depend on the payload.\<close>

lemma ctx_payload:
  "cctx (ky @ FR l z c d # k) = cctx (ky @ FR l z c d' # k)"
  "hctx (ky @ FR l z c d # k) n = hctx (ky @ FR l z c d' # k) n"
proof (induction ky arbitrary: n)
  case (Cons f ky)
  { case 1 with Cons show ?case by (cases ky) auto }
  { case 2 with Cons show ?case by auto }
qed auto

lemma rbt_ok_payload:
  "rbt_ok (plug (ky @ FR l z c d # k) t) = rbt_ok (plug (ky @ FR l z c d' # k) t)"
proof -
  have "fits (ky @ FR l z c d # k) x = fits (ky @ FR l z c d' # k) x" for x
    by (cases ky) (auto simp: fits_def)
  then show ?thesis
    unfolding rbt_ok_plug ctx_payload(1) [of ky l z c d k d'] ctx_payload(2) [of ky l z c d k _ d'] by simp
qed

lemma erase_finish:
  assumes h: "hole s k (only_child l r)" and y: "y \<notin> set (addrs (plug k (only_child l r)))"
    and dm: "dom (rb_heap s) = insert SENTINEL (Nd ` insert y (set (addrs (plug k (only_child l r)))))"
    and ok: "rbt_ok (plug k (Br l y c d r))" and lf: "l = Lf \<or> r = Lf"
    and st: "sorted_keys (inord (plug k (only_child l r)))"
  shows "\<exists>s' T. (if c = BLACK then deleteFixup (ptr_of (only_child l r)) s else Some s) = Some s' \<and>
    rep (free_node (Nd y) s') T \<and> inord T = inord (plug k (only_child l r))"
proof -
  let ?x = "only_child l r"
  obtain s' T where s': "(if c = BLACK then deleteFixup (ptr_of ?x) s else Some s) = Some s'"
    "zip_at s' [] T" "inord T = inord (plug k ?x)" "rbt_ok T" "dom (rb_heap s') = dom (rb_heap s)"
  proof (cases "c = BLACK")
    case True
    then have "del_ready k ?x"
      using ok lf by (auto simp: rbt_ok_plug del_ready_def only_child_def intro: invc_paint_BLACK)
    with deleteFixup_ok [OF h] True that show ?thesis by auto
  next
    case False
    then have "rbt_ok (plug k ?x)"
      using ok lf by (auto simp: rbt_ok_plug only_child_def fits_def)
    moreover have "zip_at s [] (plug k ?x)" using hole_zip [OF h] by (simp add: zip_at_plug [of s k])
    ultimately show ?thesis using that [of s] False by auto
  qed
  have yT: "y \<notin> set (addrs T)" and sT: "set (addrs T) = set (addrs (plug k ?x))" using s'(3) y by (simp_all add: addrs_inord)
  have "zip_at (free_node (Nd y) s') [] T"
    using s'(2) yT by (auto simp: zip_at_def free_node_def frame_simps)
  moreover have "heap_is (free_node (Nd y) s') (set (addrs T))"
    using s'(5) dm yT sT by (auto simp: heap_is_def free_node_def)
  ultimately have "rep (free_node (Nd y) s') T" using s'(3,4) st by (simp add: rep_def)
  with s' show ?thesis by blast
qed

section \<open>Erasing\<close>

text \<open>
  The contents after \<open>rbtErase\<close> of the node at \<open>z\<close>: its entry is gone. When the node has
  two children, it is the successor's node that is freed, and the entry of the successor
  moves to \<open>z\<close> under the name that was there.
\<close>

definition erased :: "(nat \<times> payload) list \<Rightarrow> nat \<Rightarrow> (nat \<times> payload) list \<Rightarrow> bool" where
  "erased xs z xs' \<longleftrightarrow> (\<exists>us d vs. xs = us @ (z, d) # vs \<and>
     (xs' = us @ vs \<or> (\<exists>y e ws. vs = (y, e) # ws \<and> xs' = us @ (z, e\<lparr>o_name := o_name d\<rparr>) # ws)))"

lemma erased_sorted: "erased xs z xs' \<Longrightarrow> sorted_keys xs \<Longrightarrow> sorted_keys xs'"
  unfolding erased_def sorted_keys_def by (auto simp: sorted_wrt_append)

lemma only_child_Lf: "l = Lf \<or> r = Lf \<Longrightarrow> inord (only_child l r) = inord l @ inord r"
  by (auto simp: only_child_def)

lemma rep_zip: "rep s (plug k t) \<Longrightarrow> zip_at s k t"
  using zip_at_plug [of s k t] by (simp add: rep_def)

lemma rep_minus:
  assumes "rep s t" "map fst (inord t) = us @ y # vs" "map fst (inord x) = us @ vs"
  shows "y \<notin> set (addrs x)" "dom (rb_heap s) = insert SENTINEL (Nd ` insert y (set (addrs x)))"
  using assms zip_distinct [of s "[]" t] by (auto simp: rep_def heap_is_def addrs_inord)

lemma rbtErase_one:
  assumes t: "rep s (plug k (Br l z c d r))" and lf: "l = Lf \<or> r = Lf"
  shows "\<exists>s' T. rbtErase (Nd z) s = Some (RBT_STATUS_OK, s') \<and> rep s' T \<and>
    erased (inord (plug k (Br l z c d r))) z (inord T)"
proof -
  let ?x = "only_child l r"
  have zz: "zip_at s k (Br l z c d r)" using rep_zip [OF t] .
  obtain s1 where s1: "rbtErase_unlink (Nd z) (ptr_of ?x) s = Some s1" "hole s1 k ?x"
    "rb_heap s1 (Nd z) = rb_heap s (Nd z)" "dom (rb_heap s1) = dom (rb_heap s)"
    using rbtErase_unlink_ok [OF zz lf] by blast
  note minus = rep_minus [OF t, of "map fst (before k @ inord l)" z "map fst (inord r @ after k)" "plug k ?x"]
  have st: "sorted_keys (inord (plug k ?x))"
    using t only_child_Lf [OF lf] by (auto simp: rep_def inord_plug sorted_keys_def sorted_wrt_append)
  obtain s2 T where s2: "(if c = BLACK then deleteFixup (ptr_of ?x) s1 else Some s1) = Some s2"
    "rep (free_node (Nd z) s2) T" "inord T = inord (plug k ?x)"
    using erase_finish [OF s1(2) minus(1) _ _ lf st, of c d] minus(2) t s1(4)
    by (auto simp: rep_def inord_plug only_child_Lf [OF lf])
  have "rbtErase (Nd z) s = Some (RBT_STATUS_OK, free_node (Nd z) s2)"
    using rd_focus [OF zz] lf s1(1,3) s2(1) by (cases l; cases r) (auto simp: rbtErase_def only_child_def rd_def)
  moreover have "erased (inord (plug k (Br l z c d r))) z (inord T)"
    unfolding erased_def s2(3) by (intro exI [of _ "before k @ inord l"]) (auto simp: inord_plug only_child_Lf [OF lf])
  ultimately show ?thesis using s2(2) by blast
qed

lemma rbtErase_two:
  assumes t: "rep s (plug k (Br l z c d r))" and nl: "l \<noteq> Lf" "r \<noteq> Lf"
  shows "\<exists>s' T. rbtErase (Nd z) s = Some (RBT_STATUS_OK, s') \<and> rep s' T \<and>
    erased (inord (plug k (Br l z c d r))) z (inord T)"
proof -
  have zz: "zip_at s k (Br l z c d r)" using rep_zip [OF t] .
  then have zr: "zip_at s (FR l z c d # k) r" by (simp add: zip_up)
  obtain rl ra rc rd' rr where r: "r = Br rl ra rc rd' rr" using nl by (cases r) auto
  obtain ky y cy dy ry where y: "leftmost (ptr_of r) s = Some (Nd y)" "before ky = []" "r = plug ky (Br Lf y cy dy ry)"
    using leftmost_ok zr unfolding r by fastforce
  let ?K = "\<lambda>d. ky @ FR l z c d # k" and ?d = "dy\<lparr>o_name := o_name d\<rparr>"
  have eq: "plug k (Br l z c d r) = plug (?K d) (Br Lf y cy dy ry)" by (simp add: plug_append y(3))
  have zy: "zip_at s (?K d) (Br Lf y cy dy ry)" using zz zip_at_plug eq by metis
  have io: "inord r = (y, dy) # inord ry @ after ky" using y(2,3) by (simp add: inord_plug)
  obtain s1 where s1: "rbtErase_unlink (Nd y) (ptr_of ry) s = Some s1" "hole s1 (?K d) ry"
    "rb_heap s1 (Nd y) = rb_heap s (Nd y)" "dom (rb_heap s1) = dom (rb_heap s)"
    using rbtErase_unlink_ok [OF zy] by (auto simp: only_child_def)
  obtain ny where ny: "rb_heap s (Nd y) = Some ny" "payload_of ny = dy" "nd_color ny = cy" using zip_at_node [OF zy] by blast
  have yz: "y \<noteq> z" using zip_distinct [OF zz] io by (auto simp: addrs_inord)
  have "zip_at s1 k (Br l z c d (plug ky ry))"
    using hole_zip [OF s1(2)] zip_at_plug [of s1 "?K d"] zip_at_plug [of s1 k] by (simp add: plug_append)
  then obtain s2 where s2: "wr (copy_payload ny) (Nd z) s1 = Some s2" "zip_at s2 k (Br l z c ?d (plug ky ry))"
    "same_dom s1 s2" "rb_heap s2 (Nd y) = rb_heap s1 (Nd y)"
    using copy_payload_focus [of s1 k l z c d "plug ky ry" ny] ny(2) yz by auto
  have "zip_at s2 (?K ?d) ry" using s2(2) zip_at_plug [of s2 "?K ?d"] zip_at_plug [of s2 k] by (simp add: plug_append)
  then have h2: "hole s2 (?K ?d) (only_child Lf ry)"
    unfolding only_child_def by (simp, intro hole_keep [OF s1(2) s2(3)]) (cases ky; simp)+
  have er: "erased (inord (plug k (Br l z c d r))) z (inord (plug (?K ?d) ry))"
    unfolding erased_def by (intro exI [of _ "before k @ inord l"] exI conjI disjI2) (auto simp: inord_plug plug_append io y(2))
  have ok: "rbt_ok (plug (?K ?d) (Br Lf y cy dy ry))"
    using t unfolding rep_def eq rbt_ok_payload [of ky l z c d k _ ?d] by simp
  have oc: "only_child Lf ry = ry" by (simp add: only_child_def)
  have m: "y \<notin> set (addrs (plug (?K ?d) (only_child Lf ry)))"
    "dom (rb_heap s) = insert SENTINEL (Nd ` insert y (set (addrs (plug (?K ?d) (only_child Lf ry)))))"
    using rep_minus [OF t, of "map fst (before k @ inord l) @ [z]" y "map fst (inord ry @ after ky @ after k)"
        "plug (?K ?d) (only_child Lf ry)"]
    by (simp_all add: io inord_plug plug_append y(2) oc del: set_addrs_plug)
  obtain s3 T where s3: "(if cy = BLACK then deleteFixup (ptr_of ry) s2 else Some s2) = Some s3"
    "rep (free_node (Nd y) s3) T" "inord T = inord (plug (?K ?d) ry)"
    using erase_finish [OF h2 m(1) _ ok] m(2) s1(4) s2(3) erased_sorted [OF er] t
    unfolding oc by (auto simp: same_dom_def rep_def simp del: set_addrs_plug)
  have "rbtErase (Nd z) s = Some (RBT_STATUS_OK, free_node (Nd y) s3)"
    using rd_focus [OF zz] nl y(1) rd_focus [OF zy] s1(1,3) s2(1,4) s3(1) ny yz
    by (cases l; cases r) (auto simp: rbtErase_def rd_def)
  with er s3 show ?thesis by auto
qed

lemma rbtErase_ok:
  assumes "rep s t" "(z, d) \<in> set (inord t)"
  shows "\<exists>s' T. rbtErase (Nd z) s = Some (RBT_STATUS_OK, s') \<and> rep s' T \<and> erased (inord t) z (inord T)"
proof -
  obtain k l c r where t: "t = plug k (Br l z c d r)" using plug_focus [OF assms(2)] by blast
  show ?thesis
    using assms(1) rbtErase_one [of s k l z c d r] rbtErase_two [of s k l z c d r] unfolding t by blast
qed

end
