(* ===== verification/RbStore.thy ===== *)
theory RbStore
  imports RbDelete
begin

text \<open>
  The tree as a collection of objects: its contents read with the traversal of the code,
  the address lookup \<open>ds_code_rbtFind2\<close>, the removal loops, \<open>rbtInsert2\<close> and
  \<open>ds_code_all_delete_rb\<close>, and the interface that the rest of the tracer uses, as a
  locale, with the tree as its instance.
\<close>

section \<open>Contents\<close>

text \<open>The part of the payload that erasing keeps together: everything but the name.\<close>

definition core :: "payload \<Rightarrow> payload" where
  "core d = d\<lparr>o_name := ''''\<rparr>"

lemma core_sel [simp]:
  "o_key (core d) = o_key d" "o_size (core d) = o_size d" "o_type (core d) = o_type d" "o_pc (core d) = o_pc d"
  "core (d\<lparr>o_name := nm\<rparr>) = core d"
  by (simp_all add: core_def)

definition cores :: "rbt \<Rightarrow> payload list" where
  "cores t = map (core \<circ> snd) (inord t)"

text \<open>The objects of a state, in key order, read with the traversal of the code.\<close>

definition objs :: "rbstate \<Rightarrow> payload list" where
  "objs s = (case ds_code_traverse (\<lambda>n q. q @ [core (payload_of n)]) s [] of Some xs \<Rightarrow> xs | None \<Rightarrow> [])"

lemma rbtInorder_ok:
  assumes "tree_at (rb_heap s) p t"
  shows "\<exists>ns. map payload_of ns = map snd (inord t) \<and>
    rbtInorder (ptr_of t) cb s q = Some (foldl (\<lambda>q n. cb n q) q ns)"
  using assms
proof (induction t arbitrary: p q)
  case Lf
  then show ?case by (subst rbtInorder.simps) simp
next
  case (Br l a c d r)
  then obtain n where n: "rb_heap s (Nd a) = Some n" "nd_left n = ptr_of l" "nd_right n = ptr_of r" "payload_of n = d"
    by (auto simp: node_at_def)
  obtain ns where ns: "map payload_of ns = map snd (inord l)"
    "rbtInorder (ptr_of l) cb s q = Some (foldl (\<lambda>q n. cb n q) q ns)"
    using Br.IH(1) [of "Nd a" q] Br.prems by auto
  obtain ms where ms: "map payload_of ms = map snd (inord r)"
    "rbtInorder (ptr_of r) cb s (cb n (foldl (\<lambda>q n. cb n q) q ns)) =
       Some (foldl (\<lambda>q n. cb n q) (cb n (foldl (\<lambda>q n. cb n q) q ns)) ms)"
    using Br.IH(2) [of "Nd a" "cb n (foldl (\<lambda>q n. cb n q) q ns)"] Br.prems by auto
  show ?case
    using n ns ms by (intro exI [of _ "ns @ n # ms"]) (subst rbtInorder.simps, simp)
qed

lemma foldl_snoc: "foldl (\<lambda>q n. q @ [f n]) q ns = q @ map f ns"
  by (induction ns arbitrary: q) auto

lemma objs_rep: "rep s t \<Longrightarrow> objs s = cores t"
proof -
  assume "rep s t"
  then have "tree_at (rb_heap s) NULL t" "rb_root s = ptr_of t" by (auto simp: rep_def zip_at_def)
  from rbtInorder_ok [OF this(1), of "\<lambda>n q. q @ [core (payload_of n)]" "[]"] this(2)
  obtain ns where "map payload_of ns = map snd (inord t)"
    "ds_code_traverse (\<lambda>n q. q @ [core (payload_of n)]) s [] = Some (map (core \<circ> payload_of) ns)"
    by (auto simp: ds_code_traverse_def foldl_snoc comp_def)
  then show ?thesis by (simp add: objs_def cores_def flip: map_map)
qed

definition store_ok :: "rbstate \<Rightarrow> bool" where
  "store_ok s \<longleftrightarrow> (\<exists>t. rep s t)"

lemma rep_init: "rep rb_init Lf"
  by (simp add: rep_def rb_init_def zip_at_def sent_ok_def sentinel_def rbt_ok_def sorted_keys_def heap_is_def)

section \<open>Lookup\<close>

definition contains :: "payload \<Rightarrow> u32 \<Rightarrow> bool" where
  "contains d k \<longleftrightarrow> in_range (o_key d) (o_size d) k"

lemma contains_core [simp]: "contains (core d) k = contains d k"
  by (simp add: contains_def)

fun find2_t :: "u32 \<Rightarrow> rbt \<Rightarrow> (nat \<times> payload) option" where
  "find2_t key Lf = None"
| "find2_t key (Br l a c d r) = (if contains d key then Some (a, d)
     else if key \<le> o_key d then find2_t key l else find2_t key r)"

lemma find2_from_ok:
  "zip_at s k t \<Longrightarrow> find2_from key (ptr_of t) s =
     Some (case find2_t key t of None \<Rightarrow> NULL | Some (a, d) \<Rightarrow> Nd a)"
proof (induction t arbitrary: k)
  case Lf
  then show ?case by (subst find2_from.simps) simp
next
  case (Br l a c d r)
  have "find2_from key (ptr_of l) s = Some (case find2_t key l of None \<Rightarrow> NULL | Some (a, d) \<Rightarrow> Nd a)"
    "find2_from key (ptr_of r) s = Some (case find2_t key r of None \<Rightarrow> NULL | Some (a, d) \<Rightarrow> Nd a)"
    using Br.IH(1) [of "FL a c d r # k"] Br.IH(2) [of "FR l a c d # k"] Br.prems by (simp_all add: zip_up)
  then show ?case
    using rd_focus [OF Br.prems] by (subst find2_from.simps) (auto simp: contains_def in_range_def)
qed

lemma find2_rep:
  "rep s t \<Longrightarrow> ds_code_rbtFind2 key s = Some (case find2_t key t of None \<Rightarrow> NULL | Some (a, d) \<Rightarrow> Nd a)"
  using find2_from_ok [of s "[]" t key] by (simp add: rep_def ds_code_rbtFind2_def zip_at_def)

lemma find2_t_sound: "find2_t key t = Some (a, d) \<Longrightarrow> (a, d) \<in> set (inord t) \<and> contains d key"
  by (induction t) (auto split: if_splits)

text \<open>No object holds the start of another one.\<close>

definition no_overlap :: "payload list \<Rightarrow> bool" where
  "no_overlap xs \<longleftrightarrow> (\<forall>d \<in> set xs. \<forall>e \<in> set xs. contains d (o_key e) \<longrightarrow> o_key e = o_key d)"

lemma find2_t_complete:
  assumes "sorted_keys (inord t)" "\<forall>(b, e) \<in> set (inord t). contains d (o_key e) \<longrightarrow> o_key e = o_key d"
    and "(a, d) \<in> set (inord t)" "contains d key"
  shows "find2_t key t \<noteq> None"
  using assms
proof (induction t)
  case (Br l b c e r)
  have srt: "sorted_keys (inord l)" "sorted_keys (inord r)"
    "\<forall>x \<in> set (keys (inord l)). x < o_key e" "\<forall>x \<in> set (keys (inord r)). o_key e < x"
    using Br.prems(1) by (auto simp: sorted_keys_def sorted_wrt_append)
  have l: "\<forall>(x, y) \<in> set (inord l). o_key y < o_key e" and r: "\<forall>(x, y) \<in> set (inord r). o_key e < o_key y"
    using srt(3,4) by (auto simp: keys_def)
  show ?case
  proof (cases "contains e key \<or> (a, d) = (b, e)")
    case False
    with Br.prems(3) consider "(a, d) \<in> set (inord l)" | "(a, d) \<in> set (inord r)" by auto
    then show ?thesis
    proof cases
      case 1
      then have "key \<le> o_key e"
        using l Br.prems(2,4) False by (force simp: contains_def in_range_def)
      then show ?thesis using Br.IH(1) Br.prems 1 srt False by auto
    next
      case 2
      then have "\<not> key \<le> o_key e"
        using r Br.prems(4) by (force simp: contains_def in_range_def)
      then show ?thesis using Br.IH(2) Br.prems 2 srt False by auto
    qed
  qed (use Br.prems in auto)
qed simp

lemma find2_t_own:
  assumes "sorted_keys (inord t)" "(a, d) \<in> set (inord t)" "contains d (o_key d)"
  shows "find2_t (o_key d) t \<noteq> None"
  using assms
proof (induction t)
  case (Br l b c e r)
  have srt: "sorted_keys (inord l)" "sorted_keys (inord r)"
    "\<forall>x \<in> set (keys (inord l)). x < o_key e" "\<forall>x \<in> set (keys (inord r)). o_key e < x"
    using Br.prems(1) by (auto simp: sorted_keys_def sorted_wrt_append)
  have l: "\<forall>(x, y) \<in> set (inord l). o_key y < o_key e" and r: "\<forall>(x, y) \<in> set (inord r). o_key e < o_key y"
    using srt(3,4) by (auto simp: keys_def)
  from Br.prems(2) consider "(a, d) = (b, e)" | "(a, d) \<in> set (inord l)" | "(a, d) \<in> set (inord r)" by auto
  then show ?case
    using Br l r srt by cases (auto simp: not_le [symmetric])
qed simp

section \<open>Removing what holds an address\<close>

lemma rep_distinct: "rep s t \<Longrightarrow> distinct (map fst (inord t))"
  using zip_distinct [of s "[]" t] by (simp add: rep_def addrs_inord)

lemma erased_cores:
  assumes "erased xs z xs'" "distinct (map fst xs)" "(z, d) \<in> set xs"
  shows "\<exists>us vs. map (core \<circ> snd) xs = us @ core d # vs \<and> map (core \<circ> snd) xs' = us @ vs"
proof -
  obtain us e vs where e: "xs = us @ (z, e) # vs" "map (core \<circ> snd) xs' = map (core \<circ> snd) (us @ vs)"
    using assms(1) by (auto simp: erased_def)
  then have "d = e" using assms(2,3) by (auto simp: rev_image_eqI)
  with e show ?thesis by auto
qed

text \<open>
  \<open>shed key xs ys\<close>: some objects that hold the address are gone, all others are still
  there, in order.
\<close>

definition shed :: "u32 \<Rightarrow> payload list \<Rightarrow> payload list \<Rightarrow> bool" where
  "shed key xs ys \<longleftrightarrow> set ys \<subseteq> set xs \<and>
     filter (\<lambda>d. \<not> contains d key) ys = filter (\<lambda>d. \<not> contains d key) xs"

lemma shed_refl [simp]: "shed key xs xs"
  by (simp add: shed_def)

lemma shed_trans: "shed key xs ys \<Longrightarrow> shed key ys zs \<Longrightarrow> shed key xs zs"
  by (auto simp: shed_def)

lemma shed_sub: "shed key xs ys \<Longrightarrow> {d \<in> set xs. \<not> contains d key} \<subseteq> set ys"
  unfolding shed_def by (metis filter_is_subset set_filter)

lemma shed_one: "contains d key \<Longrightarrow> shed key (us @ d # vs) (us @ vs)"
  by (auto simp: shed_def)

lemma erase_found:
  assumes "rep s t" "find2_t key t = Some (a, d)"
  shows "\<exists>s' T. rbtErase (Nd a) s = Some (RBT_STATUS_OK, s') \<and> rep s' T \<and>
    shed key (cores t) (cores T) \<and> Suc (length (inord T)) = length (inord t)"
proof -
  have d: "(a, d) \<in> set (inord t)" "contains d key" using find2_t_sound [OF assms(2)] by auto
  obtain s' T where T: "rbtErase (Nd a) s = Some (RBT_STATUS_OK, s')" "rep s' T" "erased (inord t) a (inord T)"
    using rbtErase_ok [OF assms(1) d(1)] by blast
  obtain us vs where "cores t = us @ core d # vs" "cores T = us @ vs"
    using erased_cores [OF T(3) rep_distinct [OF assms(1)] d(1)] by (auto simp: cores_def)
  then have "shed key (cores t) (cores T)" "length (cores t) = Suc (length (cores T))"
    using shed_one [of "core d" key] d(2) by simp_all
  with T show ?thesis by (auto simp: cores_def)
qed

text \<open>Both removal loops return, with nothing left for the lookup to find.\<close>

lemma clear_loop:
  assumes body: "\<And>s. f s = do { dup \<leftarrow> ds_code_rbtFind2 key s;
      if dup = NULL then Some s else do { r \<leftarrow> rbtErase dup s; f (snd r) } }"
    and t: "rep s t"
  shows "\<exists>s' T. f s = Some s' \<and> rep s' T \<and> shed key (cores t) (cores T) \<and> find2_t key T = None"
  using t
proof (induction "length (inord t)" arbitrary: s t)
  case 0
  then have "find2_t key t = None" by (cases t) auto
  then have "f s = Some s" using find2_rep [OF 0(2), of key] by (subst body) simp
  with 0 \<open>find2_t key t = None\<close> show ?case by auto
next
  case (Suc n)
  show ?case
  proof (cases "find2_t key t")
    case None
    then have "f s = Some s" using find2_rep [OF Suc.prems, of key] by (subst body) simp
    with None Suc.prems show ?thesis by auto
  next
    case (Some p)
    obtain a d where p: "p = (a, d)" by (cases p)
    obtain s1 T1 where s1: "rbtErase (Nd a) s = Some (RBT_STATUS_OK, s1)" "rep s1 T1"
      "shed key (cores t) (cores T1)" "Suc (length (inord T1)) = length (inord t)"
      using erase_found [OF Suc.prems] Some p by blast
    have "f s = f s1" using find2_rep [OF Suc.prems, of key] Some p s1(1) by (subst body) simp
    moreover have "n = length (inord T1)" using s1(4) Suc.hyps(2) by simp
    from Suc.hyps(1) [OF this s1(2)] obtain s' T where "f s1 = Some s'" "rep s' T"
      "shed key (cores T1) (cores T)" "find2_t key T = None" by blast
    ultimately show ?thesis using shed_trans [OF s1(3)] by auto
  qed
qed

lemma clear_ok:
  "rep s t \<Longrightarrow> \<exists>s' T. rbtInsert2_clear key s = Some s' \<and> rep s' T \<and> shed key (cores t) (cores T) \<and> find2_t key T = None"
  by (rule clear_loop, subst rbtInsert2_clear.simps, rule refl)

lemma erase_all_ok:
  "rep s t \<Longrightarrow> \<exists>s' T. ds_code_erase_all key sz s = Some s' \<and> rep s' T \<and> shed key (cores t) (cores T) \<and> find2_t key T = None"
  by (rule clear_loop, subst ds_code_erase_all.simps, rule refl)

text \<open>Without overlaps, a lookup that finds nothing means that no object holds the address.\<close>

lemma find2_none:
  assumes "rep s t" "no_overlap (cores t)" "find2_t key t = None"
  shows "\<forall>d \<in> set (cores t). \<not> contains d key"
proof
  fix d
  assume "d \<in> set (cores t)"
  then obtain a e where e: "(a, e) \<in> set (inord t)" "d = core e" by (auto simp: cores_def)
  have "contains e (o_key e') \<longrightarrow> o_key e' = o_key e" if "(b, e') \<in> set (inord t)" for b e'
  proof -
    have "core e \<in> set (cores t)" "core e' \<in> set (cores t)"
      using e(1) that unfolding cores_def by (force simp: comp_def)+
    then show ?thesis using assms(2) unfolding no_overlap_def by fastforce
  qed
  then have *: "\<forall>(b, e') \<in> set (inord t). contains e (o_key e') \<longrightarrow> o_key e' = o_key e" by blast
  have "sorted_keys (inord t)" using assms(1) by (simp add: rep_def)
  from find2_t_complete [OF this * e(1), of key] assms(3) e(2) show "\<not> contains d key" by auto
qed

lemma no_overlap_subset: "no_overlap xs \<Longrightarrow> set ys \<subseteq> set xs \<Longrightarrow> no_overlap ys"
  by (auto simp: no_overlap_def)

lemma shed_all: "shed key xs ys \<Longrightarrow> \<forall>d \<in> set ys. \<not> contains d key \<Longrightarrow> ys = filter (\<lambda>d. \<not> contains d key) xs"
  using filter_True [of ys "\<lambda>d. \<not> contains d key"] by (simp only: shed_def)

text \<open>Every object holds its own start: its size is not 0 and its end does not wrap.\<close>

definition all_proper :: "payload list \<Rightarrow> bool" where
  "all_proper xs \<longleftrightarrow> (\<forall>d \<in> set xs. contains d (o_key d))"

section \<open>Lists in key order\<close>

lemma sorted_key_inj:
  "sorted_wrt (<) (map o_key xs) \<Longrightarrow> d \<in> set xs \<Longrightarrow> e \<in> set xs \<Longrightarrow> o_key d = o_key e \<Longrightarrow> d = e"
  by (induction xs) auto

lemma insort_key_split:
  fixes f :: "'a \<Rightarrow> 'b :: linorder"
  shows "sorted_wrt (<) (map f (us @ d # vs)) \<Longrightarrow> insort_key f d (us @ vs) = us @ d # vs"
proof (induction us)
  case Nil
  then show ?case by (cases vs) auto
qed auto

lemma no_overlap_key:
  assumes "no_overlap xs" "d \<in> set xs" "e \<in> set xs" "contains d k" "contains e k"
  shows "o_key e = o_key d"
proof (cases "o_key d \<le> o_key e")
  case True
  then have "contains d (o_key e)" using assms(4,5) by (auto simp: contains_def in_range_def)
  then show ?thesis using assms(1-3) unfolding no_overlap_def by blast
next
  case False
  then have "contains e (o_key d)" using assms(4,5) by (auto simp: contains_def in_range_def)
  then show ?thesis using assms(1-3) unfolding no_overlap_def by metis
qed

section \<open>The interface\<close>

text \<open>
  What the tracer relies on: a collection of objects in key order, a lookup by address,
  an insertion and a removal. \<open>inv\<close> is the representation invariant, \<open>oka\<close> says that an
  allocator behaves.
\<close>

locale object_index =
  fixes inv :: "'s \<Rightarrow> bool" and contents :: "'s \<Rightarrow> payload list" and look :: "u32 \<Rightarrow> 's \<Rightarrow> payload option"
    and oka :: "'m \<Rightarrow> bool" and add :: "'m \<Rightarrow> payload \<Rightarrow> 's \<Rightarrow> (RbtStatus \<times> 's) option"
    and rem :: "u32 \<Rightarrow> 's \<Rightarrow> (nat \<times> 's) option"
  assumes sorted: "inv s \<Longrightarrow> sorted_wrt (<) (map o_key (contents s))"
    and look_sound: "inv s \<Longrightarrow> look k s = Some d \<Longrightarrow> d \<in> set (contents s) \<and> contains d k"
    and look_complete: "inv s \<Longrightarrow> no_overlap (contents s) \<Longrightarrow> look k s = None \<Longrightarrow> e \<in> set (contents s) \<Longrightarrow> \<not> contains e k"
    and add_total: "inv s \<Longrightarrow> oka m \<Longrightarrow> \<exists>code s'. add m d s = Some (code, s') \<and> inv s'"
    and add_status: "inv s \<Longrightarrow> oka m \<Longrightarrow> all_proper (contents s) \<Longrightarrow> add m d s = Some (code, s') \<Longrightarrow> code = RBT_STATUS_OK"
    and add_done: "inv s \<Longrightarrow> oka m \<Longrightarrow> add m d s = Some (RBT_STATUS_OK, s') \<Longrightarrow>
      \<exists>us vs. shed (o_key d) (contents s) (us @ vs) \<and> contents s' = us @ core d # vs \<and>
        (no_overlap (contents s) \<longrightarrow> (\<forall>e \<in> set (us @ vs). \<not> contains e (o_key d)))"
    and add_failed: "inv s \<Longrightarrow> oka m \<Longrightarrow> add m d s = Some (code, s') \<Longrightarrow> code \<noteq> RBT_STATUS_OK \<Longrightarrow>
      shed (o_key d) (contents s) (contents s')"
    and rem_law: "inv s \<Longrightarrow> \<exists>n s'. rem k s = Some (n, s') \<and> inv s' \<and> shed k (contents s) (contents s') \<and>
      look k s' = None \<and> (n = 0 \<longleftrightarrow> look k s = None) \<and> (n = 0 \<longrightarrow> s' = s)"
begin

text \<open>Objects that do not overlap: the lookup is determined by the contents.\<close>

lemma look_iff:
  assumes "inv s" "no_overlap (contents s)"
  shows "look k s = Some d \<longleftrightarrow> d \<in> set (contents s) \<and> contains d k"
proof
  assume d: "d \<in> set (contents s) \<and> contains d k"
  then have "look k s \<noteq> None" using look_complete [OF assms, of k d] by blast
  then obtain e where e: "look k s = Some e" by blast
  have e': "e \<in> set (contents s)" "contains e k" using look_sound [OF assms(1) e] by auto
  have "o_key e = o_key d"
    using no_overlap_key [OF assms(2)] d e' by blast
  then have "e = d" using sorted_key_inj [OF sorted [OF assms(1)]] d e'(1) by blast
  with e show "look k s = Some d" by simp
qed (use look_sound [OF assms(1)] in blast)

text \<open>The reference semantics of the two updates.\<close>

lemma add_refines:
  assumes "inv s" "oka m" "no_overlap (contents s)" "all_proper (contents s)"
  shows "\<exists>s'. add m d s = Some (RBT_STATUS_OK, s') \<and> inv s' \<and>
    contents s' = insort_key o_key (core d) (filter (\<lambda>e. \<not> contains e (o_key d)) (contents s))"
proof -
  obtain code s' where s': "add m d s = Some (code, s')" "inv s'"
    using add_total [OF assms(1,2)] by blast
  have ok: "code = RBT_STATUS_OK" using add_status [OF assms(1,2,4) s'(1)] .
  obtain us vs where u: "shed (o_key d) (contents s) (us @ vs)"
    "\<forall>e \<in> set (us @ vs). \<not> contains e (o_key d)" "contents s' = us @ core d # vs"
    using add_done [OF assms(1,2)] s'(1) assms(3) unfolding ok by blast
  have "us @ vs = filter (\<lambda>e. \<not> contains e (o_key d)) (contents s)" using shed_all [OF u(1,2)] .
  moreover have "us @ core d # vs = insort_key o_key (core d) (us @ vs)"
    using insort_key_split [of o_key us "core d" vs] sorted [OF s'(2)] u(3) by simp
  ultimately show ?thesis using s' ok u(3) by simp
qed

lemma rem_refines:
  assumes "inv s" "no_overlap (contents s)"
  shows "\<exists>n s'. rem k s = Some (n, s') \<and> inv s' \<and>
    contents s' = filter (\<lambda>e. \<not> contains e k) (contents s) \<and> (n = 0 \<longleftrightarrow> (\<forall>e \<in> set (contents s). \<not> contains e k))"
proof -
  obtain n s' where s': "rem k s = Some (n, s')" "inv s'" "shed k (contents s) (contents s')" "look k s' = None"
    "n = 0 \<longleftrightarrow> look k s = None" using rem_law [OF assms(1)] by blast
  have "no_overlap (contents s')" using s'(3) no_overlap_subset assms(2) by (auto simp: shed_def)
  then have "\<forall>e \<in> set (contents s'). \<not> contains e k" using look_complete [OF s'(2)] s'(4) by blast
  with shed_all [OF s'(3)] have "contents s' = filter (\<lambda>e. \<not> contains e k) (contents s)" by blast
  moreover have "look k s = None \<longleftrightarrow> (\<forall>e \<in> set (contents s). \<not> contains e k)"
    using look_iff [OF assms] by (metis not_None_eq)
  ultimately show ?thesis using s' by (intro exI [of _ n] exI [of _ s']) simp
qed

text \<open>An insertion that does not cover the start of another object keeps objects apart.\<close>

lemma add_keeps:
  assumes "no_overlap xs" "all_proper xs" "contains d (o_key d)"
    and "\<forall>e \<in> set xs. contains d (o_key e) \<longrightarrow> o_key e = o_key d"
  shows "no_overlap (insort_key o_key (core d) (filter (\<lambda>e. \<not> contains e (o_key d)) xs))"
    and "all_proper (insort_key o_key (core d) (filter (\<lambda>e. \<not> contains e (o_key d)) xs))"
proof -
  let ?ys = "insort_key o_key (core d) (filter (\<lambda>e. \<not> contains e (o_key d)) xs)"
  have S: "set ?ys = insert (core d) {e \<in> set xs. \<not> contains e (o_key d)}" by (simp add: set_insort_key)
  have "o_key b = o_key a" if "contains a (o_key b)" "a \<in> set ?ys" "b \<in> set ?ys" for a b
  proof (cases "b = core d")
    case True
    with that(1,2) show ?thesis unfolding S by auto
  next
    case False
    then have b: "b \<in> set xs" using that(3) unfolding S by simp
    show ?thesis
    proof (cases "a = core d")
      case True
      with that(1) have "contains d (o_key b)" by simp
      with assms(4) b have "o_key b = o_key d" by blast
      with True show ?thesis by simp
    next
      case False
      then have "a \<in> set xs" using that(2) unfolding S by simp
      then show ?thesis using assms(1) that(1) b unfolding no_overlap_def by blast
    qed
  qed
  then show "no_overlap ?ys" unfolding no_overlap_def by blast
  show "all_proper ?ys" using assms(2,3) unfolding all_proper_def S by simp
qed

lemma look_after_add:
  assumes "inv s" "oka m" "no_overlap (contents s)" "all_proper (contents s)" "contains d (o_key d)"
    and "\<forall>e \<in> set (contents s). contains d (o_key e) \<longrightarrow> o_key e = o_key d"
  shows "\<exists>s'. add m d s = Some (RBT_STATUS_OK, s') \<and>
    (\<forall>k. look k s' = (if contains d k then Some (core d)
      else case look k s of Some e \<Rightarrow> (if contains e (o_key d) then None else Some e) | None \<Rightarrow> None))"
proof -
  obtain s' where s': "add m d s = Some (RBT_STATUS_OK, s')" "inv s'"
    "contents s' = insort_key o_key (core d) (filter (\<lambda>e. \<not> contains e (o_key d)) (contents s))"
    using add_refines [OF assms(1-4), of d] by blast
  have S: "set (contents s') = insert (core d) {e \<in> set (contents s). \<not> contains e (o_key d)}"
    using s'(3) by (simp add: set_insort_key)
  have no: "no_overlap (contents s')" unfolding s'(3) by (rule add_keeps(1) [OF assms(3-6)])
  note iff = look_iff [OF s'(2) no, unfolded S] and iff0 = look_iff [OF assms(1,3)]
  have "look k s' = (if contains d k then Some (core d)
      else case look k s of Some e \<Rightarrow> (if contains e (o_key d) then None else Some e) | None \<Rightarrow> None)" for k
  proof (cases "contains d k")
    case True
    then have "look k s' = Some (core d)" unfolding iff by simp
    with True show ?thesis by simp
  next
    case False
    then have P: "look k s' = Some e \<longleftrightarrow> look k s = Some e \<and> \<not> contains e (o_key d)" for e
      unfolding iff iff0 by (cases "e = core d") auto
    show ?thesis
    proof (cases "\<exists>e. look k s = Some e \<and> \<not> contains e (o_key d)")
      case True
      then obtain e where e: "look k s = Some e" "\<not> contains e (o_key d)" by blast
      then have "look k s' = Some e" using P by blast
      with e False show ?thesis by simp
    next
      case no: False
      then have "\<forall>e. look k s' \<noteq> Some e" unfolding P by blast
      then have "look k s' = None" by (cases "look k s'") simp_all
      with no False show ?thesis by (cases "look k s") simp_all
    qed
  qed
  with s'(1) show ?thesis by blast
qed

end

section \<open>The operations of the tracer\<close>

lemma objs_sorted: "store_ok s \<Longrightarrow> sorted_wrt (<) (map o_key (objs s))"
  unfolding store_ok_def by (auto simp: objs_rep cores_def rep_def sorted_keys_def keys_def comp_def)

text \<open>The object the lookup returns, read from the node.\<close>

definition found_at :: "u32 \<Rightarrow> rbstate \<Rightarrow> payload option" where
  "found_at k s = (case ds_code_rbtFind2 k s of
     Some p \<Rightarrow> map_option (core \<circ> payload_of) (rb_heap s p) | None \<Rightarrow> None)"

lemma rep_node: "rep s t \<Longrightarrow> (a, d) \<in> set (inord t) \<Longrightarrow> \<exists>n. rb_heap s (Nd a) = Some n \<and> payload_of n = d"
proof -
  assume r: "rep s t" and "(a, d) \<in> set (inord t)"
  then obtain k l c r' where "t = plug k (Br l a c d r')" using plug_focus by blast
  with r have "zip_at s k (Br l a c d r')" using rep_zip by blast
  from zip_at_node [OF this] show ?thesis by blast
qed

lemma rep_null: "rep s t \<Longrightarrow> rb_heap s NULL = None"
proof -
  assume "rep s t"
  then have "NULL \<notin> dom (rb_heap s)" by (auto simp: rep_def heap_is_def)
  then show ?thesis by blast
qed

lemma found_at_rep: "rep s t \<Longrightarrow> found_at k s = map_option (core \<circ> snd) (find2_t k t)"
proof (cases "find2_t k t")
  case (Some p)
  assume r: "rep s t"
  obtain a d where p: "p = (a, d)" by (cases p)
  then show ?thesis
    using rep_node [OF r conjunct1 [OF find2_t_sound]] find2_rep [OF r, of k] Some by (fastforce simp: found_at_def)
qed (simp add: found_at_def find2_rep rep_null)

text \<open>An allocator that always finds room.\<close>

definition malloc_total :: "(rbstate \<Rightarrow> nptr) \<Rightarrow> bool" where
  "malloc_total mal \<longleftrightarrow> (\<forall>s. finite (dom (rb_heap s)) \<longrightarrow> mal s \<noteq> NULL)"

lemma rep_finite: "rep s t \<Longrightarrow> finite (dom (rb_heap s))"
  by (auto simp: rep_def heap_is_def)

definition first_free :: "rbstate \<Rightarrow> nptr" where
  "first_free s = (if \<exists>x. rb_heap s (Nd x) = None then Nd (LEAST x. rb_heap s (Nd x) = None) else NULL)"

lemma first_free_ok: "malloc_ok first_free"
  unfolding malloc_ok_def first_free_def by (auto intro: LeastI_ex)

lemma first_free_total: "malloc_total first_free"
proof -
  have "\<exists>x. rb_heap s (Nd x) = None" if "finite (dom (rb_heap s))" for s
  proof (rule ccontr)
    assume "\<nexists>x. rb_heap s (Nd x) = None"
    then have "range Nd \<subseteq> dom (rb_heap s)" by auto
    moreover have "infinite (range Nd)" using finite_imageD [of Nd UNIV] by (auto simp: inj_def)
    ultimately show False using that finite_subset by blast
  qed
  then show ?thesis unfolding malloc_total_def first_free_def by (metis nptr.distinct(3))
qed

lemma rbtInsert2_ok:
  assumes "store_ok s" "malloc_ok mal"
  shows "\<exists>code s'. rbtInsert2 mal key sz p s = Some (code, s') \<and> store_ok s' \<and>
    (if code = RBT_STATUS_OK
     then \<exists>us vs. shed key (objs s) (us @ vs) \<and>
            (no_overlap (objs s) \<longrightarrow> (\<forall>e \<in> set (us @ vs). \<not> contains e key)) \<and>
            objs s' = us @ core ((payload_of p)\<lparr>o_key := key, o_size := sz\<rparr>) # vs
     else shed key (objs s) (objs s')) \<and>
    (all_proper (objs s) \<longrightarrow> malloc_total mal \<longrightarrow> code = RBT_STATUS_OK)"
proof -
  obtain t where t: "rep s t" using assms(1) by (auto simp: store_ok_def)
  obtain s1 T1 where s1: "rbtInsert2_clear key s = Some s1" "rep s1 T1" "shed key (cores t) (cores T1)"
    "find2_t key T1 = None" using clear_ok [OF t] by blast
  note o = objs_rep [OF t] objs_rep [OF s1(2)]
  have none: "no_overlap (cores t) \<longrightarrow> (\<forall>e \<in> set (cores T1). \<not> contains e key)"
    using find2_none [OF s1(2) _ s1(4)] no_overlap_subset s1(3) by (auto simp: shed_def)
  show ?thesis
  proof (cases "key \<in> set (keys (inord T1))")
    case True
    then obtain a d where d: "(a, d) \<in> set (inord T1)" "o_key d = key" by (auto simp: in_keys)
    have "\<not> all_proper (cores t)"
    proof
      assume "all_proper (cores t)"
      moreover have "core d \<in> set (cores T1)" using d(1) unfolding cores_def by force
      ultimately have "contains d (o_key d)" using s1(3) by (fastforce simp: all_proper_def shed_def)
      moreover have "sorted_keys (inord T1)" using s1(2) by (simp add: rep_def)
      ultimately show False using find2_t_own d s1(4) by blast
    qed
    moreover have "rbtInsert2 mal key sz p s = Some (dup_status sz (o_size d), s1)"
      using rbtInsert_present [OF s1(2) d(1)] s1(1) d(2) by (simp add: rbtInsert2_def)
    moreover have "dup_status sz (o_size d) \<noteq> RBT_STATUS_OK" by (simp add: dup_status_def)
    ultimately show ?thesis using s1 o by (auto simp: store_ok_def)
  next
    case False
    from rbtInsert_absent [OF s1(2) assms(2) False, of sz p] show ?thesis
    proof (elim disjE conjE exE)
      assume "mal s1 = NULL" "rbtInsert mal key sz p s1 = Some (RBT_STATUS_MEM_EXHAUSTED, s1)"
      then show ?thesis using s1 o rep_finite [OF s1(2)] by (auto simp: store_ok_def rbtInsert2_def malloc_total_def)
    next
      fix x s' t' xs ys
      assume a: "rbtInsert mal key sz p s1 = Some (RBT_STATUS_OK, s')" "rep s' t'" "inord T1 = xs @ ys"
        "inord t' = xs @ (x, (payload_of p)\<lparr>o_key := key, o_size := sz\<rparr>) # ys"
      then obtain us vs where "objs s' = us @ core ((payload_of p)\<lparr>o_key := key, o_size := sz\<rparr>) # vs" "cores T1 = us @ vs"
        by (simp add: objs_rep cores_def)
      then show ?thesis using a(1,2) s1 o none by (auto simp: store_ok_def rbtInsert2_def)
    qed
  qed
qed

lemma ds_code_all_delete_rb_ok:
  assumes "store_ok s"
  shows "\<exists>n s'. ds_code_all_delete_rb key s = Some (n, s') \<and> store_ok s' \<and> shed key (objs s) (objs s') \<and>
    found_at key s' = None \<and> (n = 0 \<longleftrightarrow> found_at key s = None) \<and> (n = 0 \<longrightarrow> s' = s)"
proof -
  obtain t where t: "rep s t" using assms(1) by (auto simp: store_ok_def)
  show ?thesis
  proof (cases "find2_t key t")
    case None
    then show ?thesis using find2_rep [OF t, of key] found_at_rep [OF t] t
      by (auto simp: ds_code_all_delete_rb_def store_ok_def)
  next
    case (Some p)
    obtain a d where p: "p = (a, d)" by (cases p)
    obtain s1 T1 where s1: "rbtErase (Nd a) s = Some (RBT_STATUS_OK, s1)" "rep s1 T1" "shed key (cores t) (cores T1)"
      using erase_found [OF t] Some p by blast
    obtain s2 T2 where s2: "ds_code_erase_all key (rd nd_size (Nd a) s1) s1 = Some s2" "rep s2 T2"
      "shed key (cores T1) (cores T2)" "find2_t key T2 = None" using erase_all_ok [OF s1(2)] by blast
    have "ds_code_all_delete_rb key s = Some (1, s2)"
      using find2_rep [OF t, of key] Some p s1(1) s2(1) by (simp add: ds_code_all_delete_rb_def)
    then show ?thesis
      using s2 shed_trans [OF s1(3) s2(3)] found_at_rep [OF t, of key] found_at_rep [OF s2(2), of key] Some
      by (auto simp: store_ok_def objs_rep [OF t] objs_rep [OF s2(2)])
  qed
qed

section \<open>The tree as an object index\<close>

definition node_of :: "payload \<Rightarrow> NodeType" where
  "node_of d = \<lparr>nd_left = NULL, nd_right = NULL, nd_parent = NULL, nd_color = BLACK, nd_key = o_key d,
     nd_size = o_size d, nd_type = o_type d, nd_pc = o_pc d, nd_name = o_name d\<rparr>"

lemma payload_of_node_of [simp]: "payload_of (node_of d) = d"
  by (simp add: payload_of_def node_of_def)

definition store_add :: "(rbstate \<Rightarrow> nptr) \<Rightarrow> payload \<Rightarrow> rbstate \<Rightarrow> (RbtStatus \<times> rbstate) option" where
  "store_add mal d s = rbtInsert2 mal (o_key d) (o_size d) (node_of d) s"

lemma store_add_ok:
  assumes "store_ok s" "malloc_ok mal" "store_add mal d s = Some (code, s')"
  shows "store_ok s'"
    and "code = RBT_STATUS_OK \<Longrightarrow> \<exists>us vs. shed (o_key d) (objs s) (us @ vs) \<and> objs s' = us @ core d # vs \<and>
        (no_overlap (objs s) \<longrightarrow> (\<forall>e \<in> set (us @ vs). \<not> contains e (o_key d)))"
    and "code \<noteq> RBT_STATUS_OK \<Longrightarrow> shed (o_key d) (objs s) (objs s')"
    and "all_proper (objs s) \<Longrightarrow> malloc_total mal \<Longrightarrow> code = RBT_STATUS_OK"
  using rbtInsert2_ok [OF assms(1,2), of "o_key d" "o_size d" "node_of d"] assms(3)
  by (auto simp: store_add_def)

interpretation rbx: object_index store_ok objs found_at "\<lambda>m. malloc_ok m \<and> malloc_total m" store_add ds_code_all_delete_rb
proof unfold_locales
  fix s k d e
  assume s: "store_ok s"
  then obtain t where t: "rep s t" by (auto simp: store_ok_def)
  show "sorted_wrt (<) (map o_key (objs s))" by (rule objs_sorted [OF s])
  show "found_at k s = Some d \<Longrightarrow> d \<in> set (objs s) \<and> contains d k"
    using find2_t_sound [of k t] by (force simp: found_at_rep [OF t] objs_rep [OF t] cores_def)
  show "no_overlap (objs s) \<Longrightarrow> found_at k s = None \<Longrightarrow> e \<in> set (objs s) \<Longrightarrow> \<not> contains e k"
    using find2_none [OF t] by (auto simp: found_at_rep [OF t] objs_rep [OF t])
  show "\<exists>n s'. ds_code_all_delete_rb k s = Some (n, s') \<and> store_ok s' \<and> shed k (objs s) (objs s') \<and>
      found_at k s' = None \<and> (n = 0 \<longleftrightarrow> found_at k s = None) \<and> (n = 0 \<longrightarrow> s' = s)"
    by (rule ds_code_all_delete_rb_ok [OF s])
next
  fix s m d
  assume "store_ok s" "malloc_ok m \<and> malloc_total m"
  then show "\<exists>code s'. store_add m d s = Some (code, s') \<and> store_ok s'"
    using rbtInsert2_ok [of s m "o_key d" "o_size d" "node_of d"] by (auto simp: store_add_def)
qed (blast intro: store_add_ok)+

section \<open>Freeing the tree\<close>

lemma rbtDelete_ok:
  assumes "tree_at (rb_heap s) p t" "distinct (addrs t)"
  shows "\<exists>s'. rbtDelete (ptr_of t) s = Some s' \<and> (\<forall>x. rb_heap s' x = (if x \<in> Nd ` set (addrs t) then None else rb_heap s x))"
  using assms
proof (induction t arbitrary: p s)
  case Lf
  then show ?case by (subst rbtDelete.simps) simp
next
  case (Br l a c d r)
  obtain n where n: "rb_heap s (Nd a) = Some n" "nd_left n = ptr_of l" "nd_right n = ptr_of r"
    using Br.prems(1) by (auto simp: node_at_def)
  obtain s1 where s1: "rbtDelete (ptr_of l) s = Some s1"
    "\<forall>x. rb_heap s1 x = (if x \<in> Nd ` set (addrs l) then None else rb_heap s x)"
    using Br.IH(1) [of s "Nd a"] Br.prems by auto
  have "tree_at (rb_heap s1) (Nd a) r"
    by (rule tree_at_agree [of "rb_heap s"]) (use Br.prems s1(2) in auto)
  then obtain s2 where s2: "rbtDelete (ptr_of r) s1 = Some s2"
    "\<forall>x. rb_heap s2 x = (if x \<in> Nd ` set (addrs r) then None else rb_heap s1 x)"
    using Br.IH(2) [of s1 "Nd a"] Br.prems by auto
  have "rb_heap s1 (Nd a) = Some n" using s1(2) n(1) Br.prems(2) by auto
  then have "rbtDelete (Nd a) s = Some (free_node (Nd a) s2)"
    using n s1(1) s2(1) by (subst rbtDelete.simps) (simp add: rd_def)
  then show ?case using s1(2) s2(2) by (auto simp: free_node_def)
qed

section \<open>Histories\<close>

text \<open>The states the tree can reach from start-up, whatever the allocator answers.\<close>

inductive store_reach :: "rbstate \<Rightarrow> bool" where
  start: "store_reach rb_init"
| ins: "store_reach s \<Longrightarrow> malloc_ok mal \<Longrightarrow> rbtInsert2 mal key sz p s = Some (code, s') \<Longrightarrow> store_reach s'"
| del: "store_reach s \<Longrightarrow> ds_code_all_delete_rb key s = Some (n, s') \<Longrightarrow> store_reach s'"

lemma store_reach_inv: "store_reach s \<Longrightarrow> store_ok s"
proof (induction rule: store_reach.induct)
  case start
  then show ?case using rep_init by (auto simp: store_ok_def)
next
  case (ins s mal key sz p code s')
  then show ?case using rbtInsert2_ok [of s mal key sz p] by auto
next
  case (del s key n s')
  then show ?case using ds_code_all_delete_rb_ok [of s key] by auto
qed

end
