(* ===== verification/RbProps.thy ===== *)
theory RbProps
  imports RbStore
begin

text \<open>
  What the object tree of \<open>rb_tree.c\<close> guarantees, each with an evaluation on a small tree.
\<close>

section \<open>A concrete tree\<close>

definition alloc8 :: "rbstate \<Rightarrow> nptr" where
  "alloc8 s = (case filter (\<lambda>x. rb_heap s (Nd x) = None) [0..<8] of [] \<Rightarrow> NULL | x # _ \<Rightarrow> Nd x)"

definition obj :: "u32 \<Rightarrow> u32 \<Rightarrow> payload" where
  "obj k z = \<lparr>o_key = k, o_size = z, o_type = 0, o_pc = 0, o_name = ''''\<rparr>"

definition named :: "u32 \<Rightarrow> string \<Rightarrow> payload" where
  "named k nm = (obj k 8)\<lparr>o_name := nm\<rparr>"

lemma obj_simps [simp]:
  "o_key (obj k z) = k" "o_size (obj k z) = z" "core (obj k z) = obj k z"
  "contains (obj k z) a \<longleftrightarrow> k \<le> a \<and> a < k + z"
  by (simp_all add: obj_def core_def contains_def in_range_def)

definition three :: rbstate where
  "three = (case do { (c, s) \<leftarrow> store_add alloc8 (obj 32 16) rb_init;
                      (c, s) \<leftarrow> store_add alloc8 (obj 96 32) s;
                      store_add alloc8 (obj 160 8) s } of
              Some (c, s) \<Rightarrow> s | None \<Rightarrow> rb_init)"

lemma alloc8_ok: "malloc_ok alloc8"
proof -
  have "rb_heap s (Nd x) = None" if "filter (\<lambda>x. rb_heap s (Nd x) = None) [0..<8] = x # xs" for s x xs
    using that by (metis (mono_tags, lifting) filter_eq_ConsD)
  then show ?thesis unfolding malloc_ok_def alloc8_def by (simp split: list.split) blast
qed

lemma objs_three: "objs three = [obj 32 16, obj 96 32, obj 160 8]"
  by code_simp

lemma found_three: "found_at 40 three = Some (obj 32 16)"
  by code_simp

lemma three_reach: "store_reach three"
proof -
  have ex: "\<exists>c s'. store_add alloc8 d s = Some (c, s') \<and> store_reach s'" if s: "store_reach s" for d s
  proof -
    obtain c s' where a: "store_add alloc8 d s = Some (c, s')"
      using rbtInsert2_ok [OF store_reach_inv [OF s] alloc8_ok] unfolding store_add_def by blast
    then have "store_reach s'" using store_reach.ins [OF s alloc8_ok] by (simp add: store_add_def)
    with a show ?thesis by blast
  qed
  obtain c1 s1 where 1: "store_add alloc8 (obj 32 16) rb_init = Some (c1, s1)" "store_reach s1"
    using ex [OF store_reach.start] by blast
  obtain c2 s2 where 2: "store_add alloc8 (obj 96 32) s1 = Some (c2, s2)" "store_reach s2"
    using ex [OF 1(2)] by blast
  obtain c3 s3 where 3: "store_add alloc8 (obj 160 8) s2 = Some (c3, s3)" "store_reach s3"
    using ex [OF 2(2)] by blast
  then show ?thesis using 1 2 by (simp add: three_def)
qed

lemma three_ok: "store_ok three"
  by (rule store_reach_inv [OF three_reach])

lemma three_apart: "no_overlap (objs three)" "all_proper (objs three)"
  unfolding objs_three by (simp_all add: no_overlap_def all_proper_def)

section \<open>Shape\<close>

text \<open>
  C1: in every state the tree can reach, whatever the allocator answers, the linked nodes
  are a binary search tree with strictly increasing keys and correct parent links, it
  meets the red-black conditions, every allocated node is in it, and its height is
  logarithmic in the number of objects.
\<close>

theorem tree_reachable:
  assumes "store_reach s"
  shows "\<exists>t. zip_at s [] t \<and> sorted_keys (inord t) \<and> rbt_ok t \<and> heap_is s (set (addrs t)) \<and>
    map (core \<circ> snd) (inord t) = objs s \<and> 2 ^ (theight t div 2) \<le> length (objs s) + 1"
proof -
  obtain t where t: "rep s t" using store_reach_inv [OF assms] by (auto simp: store_ok_def)
  then show ?thesis
    using rbt_ok_height [of t] by (intro exI [of _ t]) (auto simp: rep_def objs_rep [OF t] cores_def)
qed

theorem tree_reachable_witness:
  "\<exists>t. zip_at three [] t \<and> rbt_ok t \<and> map (core \<circ> snd) (inord t) = [obj 32 16, obj 96 32, obj 160 8]"
  using tree_reachable [OF three_reach] unfolding objs_three by (rule ex_forward) simp

section \<open>Updates against the reference\<close>













section \<open>Traversal and release\<close>





section \<open>Behaviour at the limits\<close>

text \<open>
  An object inserted over the start of a live one leaves both in the tree, and the
  lookup then misses addresses that the larger object holds: after inserting [50, 60) and
  then [0, 100), address 70 is not found although [0, 100) is in the tree.
\<close>

theorem overlap_missed:
  "do { (c, s) \<leftarrow> store_add alloc8 (obj 50 10) rb_init;
        (c, s) \<leftarrow> store_add alloc8 (obj 0 100) s;
        Some (c, objs s, found_at 70 s, found_at 40 s) } =
   Some (RBT_STATUS_OK, [obj 0 100, obj 50 10], None, Some (obj 0 100))"
  by code_simp

text \<open>
  C35: an object of size 0 is never found by the lookup, so inserting a second object at
  its address fails: \<open>rbtInsert2\<close> answers \<open>RBT_STATUS_DUPLICATE_KEY\<close> for size 0 and
  \<open>RBT_STATUS_REALLOC_LARGE\<close> for any other size, which the caller takes as fatal.
\<close>

theorem empty_object_blocks:
  assumes "store_ok s" "d \<in> set (objs s)" "o_size d = 0"
  shows "\<exists>s'. rbtInsert2 mal (o_key d) sz p s =
    Some (if sz = 0 then RBT_STATUS_DUPLICATE_KEY else RBT_STATUS_REALLOC_LARGE, s')"
proof -
  obtain t where t: "rep s t" using assms(1) by (auto simp: store_ok_def)
  obtain s1 T1 where s1: "rbtInsert2_clear (o_key d) s = Some s1" "rep s1 T1" "shed (o_key d) (cores t) (cores T1)"
    using clear_ok [OF t] by blast
  have "\<not> contains d (o_key d)" using assms(3) by (simp add: contains_def in_range_def)
  then have "d \<in> set (cores T1)" using shed_sub [OF s1(3)] assms(2) objs_rep [OF t] by auto
  then obtain a e where e: "(a, e) \<in> set (inord T1)" "o_key e = o_key d" "o_size e = 0"
    using assms(3) by (auto simp: cores_def)
  show ?thesis using rbtInsert_present [OF s1(2) e(1), of mal sz p] s1(1) e(2,3)
    by (simp add: rbtInsert2_def dup_status_def)
qed

theorem empty_object_blocks_witness:
  "\<exists>c s s'. store_add alloc8 (obj 16 0) rb_init = Some (c, s) \<and>
     rbtInsert2 alloc8 16 24 (node_of (obj 16 24)) s = Some (RBT_STATUS_REALLOC_LARGE, s')"
proof -
  have ok: "store_ok rb_init" by (rule store_reach_inv [OF store_reach.start])
  obtain c s where s: "store_add alloc8 (obj 16 0) rb_init = Some (c, s)"
    using rbtInsert2_ok [OF ok alloc8_ok] unfolding store_add_def by blast
  have "map_option (objs \<circ> snd) (store_add alloc8 (obj 16 0) rb_init) = Some [obj 16 0]" by code_simp
  with s have "obj 16 0 \<in> set (objs s)" by simp
  from empty_object_blocks [OF store_add_ok(1) [OF ok alloc8_ok s] this, of alloc8 24 "node_of (obj 16 24)"] s
  show ?thesis by auto
qed

text \<open>
  Erasing an object with two children leaves its name on its successor. After
  inserting three objects named a, b and c and deleting the middle one, the object of c
  is named b.
\<close>

theorem erase_stale_name:
  "do { (c, s) \<leftarrow> store_add alloc8 (named 16 ''a'') rb_init;
        (c, s) \<leftarrow> store_add alloc8 (named 32 ''b'') s;
        (c, s) \<leftarrow> store_add alloc8 (named 48 ''c'') s;
        (n, s) \<leftarrow> ds_code_all_delete_rb 32 s;
        ds_code_traverse (\<lambda>n q. q @ [(nd_key n, nd_name n)]) s [] } =
   Some [(16, ''a''), (48, ''b'')]"
  by code_simp

end
