(* ===== verification/GuestCpu.thy ===== *)
theory GuestCpu
  imports TracePrelude
begin

text \<open>
  The guest CPU as the tracer sees it: the part of \<open>CPUX86State\<close> (\<open>target-i386/cpu.h\<close>)
  that is used, the register table and accessors of \<open>qemu-pemu.c\<close>, the page walk
  \<open>x86_cpu_get_phys_page_debug\<close> (\<open>target-i386/helper.c\<close>) and the guest memory access
  \<open>cpu_memory_rw_debug\<close> (\<open>exec.c\<close>). The target is the 32-bit one, so \<open>target_ulong\<close> has
  32 bits; physical addresses have 64. Reading a register array out of its bounds is
  \<open>None\<close>. Physical memory is a byte per physical address; devices are not modelled.
  The lazy-flag selector \<open>CCOp\<close> groups the enumeration by operation, with the operand
  size as an argument: \<open>CC_OP_ADDW\<close> is \<open>CC_OP_ADD SzW\<close>.
\<close>

section \<open>CPU state\<close>

type_synonym u64 = "64 word"
type_synonym ram = "u64 \<Rightarrow> u8"

definition R_EAX :: int where "R_EAX = 0"
definition R_ECX :: int where "R_ECX = 1"
definition R_EDX :: int where "R_EDX = 2"
definition R_EBX :: int where "R_EBX = 3"
definition R_ESP :: int where "R_ESP = 4"
definition R_EBP :: int where "R_EBP = 5"
definition R_ESI :: int where "R_ESI = 6"
definition R_EDI :: int where "R_EDI = 7"
definition R_ES :: int where "R_ES = 0"
definition R_CS :: int where "R_CS = 1"
definition R_SS :: int where "R_SS = 2"
definition R_DS :: int where "R_DS = 3"
definition R_FS :: int where "R_FS = 4"
definition R_GS :: int where "R_GS = 5"

lemmas R_defs = R_EAX_def R_ECX_def R_EDX_def R_EBX_def R_ESP_def R_EBP_def R_ESI_def R_EDI_def
  R_ES_def R_CS_def R_SS_def R_DS_def R_FS_def R_GS_def

definition CPU_NB_REGS :: nat where "CPU_NB_REGS = 8"

record SegmentCache =
  sg_selector :: u32
  sg_base :: u32
  sg_limit :: u32
  sg_flags :: u32

datatype op_size = SzB | SzW | SzL | SzQ

datatype CCOp = CC_OP_DYNAMIC | CC_OP_EFLAGS | CC_OP_MUL op_size | CC_OP_ADD op_size
  | CC_OP_ADC op_size | CC_OP_SUB op_size | CC_OP_SBB op_size | CC_OP_LOGIC op_size
  | CC_OP_INC op_size | CC_OP_DEC op_size | CC_OP_SHL op_size | CC_OP_SAR op_size
  | CC_OP_BMILG op_size | CC_OP_ADCX | CC_OP_ADOX | CC_OP_ADCOX | CC_OP_CLR

definition AC_MASK :: u32 where "AC_MASK = 0x40000"

record CPUX86State =
  regs :: "nat \<Rightarrow> u32"
  eip :: u32
  eflags :: u32
  cc_dst :: u32
  cc_src :: u32
  cc_src2 :: u32
  cc_op :: CCOp
  df :: u32
  hflags :: u32
  segs :: "nat \<Rightarrow> SegmentCache"
  cr :: "nat \<Rightarrow> u32"
  a20_mask :: u32

section \<open>The flag tests of \<open>condition.h\<close>\<close>

definition CC_C :: u32 where "CC_C = 0x0001"
definition CC_P :: u32 where "CC_P = 0x0004"
definition CC_A :: u32 where "CC_A = 0x0010"
definition CC_Z :: u32 where "CC_Z = 0x0040"
definition CC_S :: u32 where "CC_S = 0x0080"
definition CC_O :: u32 where "CC_O = 0x0800"

definition is_cf_set :: "u32 \<Rightarrow> u32" where "is_cf_set ef = (if ef AND CC_C \<noteq> 0 then 1 else 0)"
definition is_pf_set :: "u32 \<Rightarrow> u32" where "is_pf_set ef = (if ef AND CC_P \<noteq> 0 then 1 else 0)"
definition is_af_set :: "u32 \<Rightarrow> u32" where "is_af_set ef = (if ef AND CC_A \<noteq> 0 then 1 else 0)"
definition is_zf_set :: "u32 \<Rightarrow> u32" where "is_zf_set ef = (if ef AND CC_Z \<noteq> 0 then 1 else 0)"
definition is_sf_set :: "u32 \<Rightarrow> u32" where "is_sf_set ef = (if ef AND CC_S \<noteq> 0 then 1 else 0)"
definition is_of_set :: "u32 \<Rightarrow> u32" where "is_of_set ef = (if ef AND CC_O \<noteq> 0 then 1 else 0)"

section \<open>Registers by decoder name\<close>

text \<open>
  A register of the instruction decoder is its number in the order of the rows of
  \<open>xed_regmapping\<close>, which name it.
\<close>

type_synonym xed_reg = nat

abbreviation unmapped :: "int list" where
  "unmapped \<equiv> [-1, -1, -1]"

definition xed_regmapping :: "int list list" where
  "xed_regmapping =
     replicate 36 unmapped @
     [[R_EAX, -1, -1], [R_ECX, -1, -1], [R_EDX, -1, -1], [R_EBX, -1, -1],
      [R_ESP, -1, -1], [R_EBP, -1, -1], [R_ESI, -1, -1], [R_EDI, -1, -1]] @
     replicate 8 unmapped @
     [[R_EAX, -1, -1], [R_ECX, -1, -1], [R_EDX, -1, -1], [R_EBX, -1, -1],
      [R_ESP, -1, -1], [R_EBP, -1, -1], [R_ESI, -1, -1], [R_EDI, -1, -1]] @
     replicate 24 unmapped @
     [[R_EAX, -1, -1], [R_ECX, -1, -1], [R_EDX, -1, -1], [R_EBX, -1, -1]] @
     replicate 12 unmapped @
     [[R_EAX, -1, -1], [R_ECX, -1, -1], [R_EDX, -1, -1], [R_EBX, -1, -1]] @
     replicate 29 unmapped @
     [[R_CS, -1, -1], [R_DS, -1, -1], [R_ES, -1, -1], [R_SS, -1, -1], [R_FS, -1, -1], [R_GS, -1, -1]] @
     replicate 93 unmapped"

definition XED_REG_INVALID :: xed_reg where "XED_REG_INVALID = 0"
definition XED_REG_AX :: xed_reg where "XED_REG_AX = 36"
definition XED_REG_CX :: xed_reg where "XED_REG_CX = 37"
definition XED_REG_DX :: xed_reg where "XED_REG_DX = 38"
definition XED_REG_BX :: xed_reg where "XED_REG_BX = 39"
definition XED_REG_SI :: xed_reg where "XED_REG_SI = 42"
definition XED_REG_DI :: xed_reg where "XED_REG_DI = 43"
definition XED_REG_EAX :: xed_reg where "XED_REG_EAX = 52"
definition XED_REG_ECX :: xed_reg where "XED_REG_ECX = 53"
definition XED_REG_EDX :: xed_reg where "XED_REG_EDX = 54"
definition XED_REG_EBX :: xed_reg where "XED_REG_EBX = 55"
definition XED_REG_ESP :: xed_reg where "XED_REG_ESP = 56"
definition XED_REG_EBP :: xed_reg where "XED_REG_EBP = 57"
definition XED_REG_ESI :: xed_reg where "XED_REG_ESI = 58"
definition XED_REG_EDI :: xed_reg where "XED_REG_EDI = 59"
definition XED_REG_AL :: xed_reg where "XED_REG_AL = 84"
definition XED_REG_CL :: xed_reg where "XED_REG_CL = 85"
definition XED_REG_DL :: xed_reg where "XED_REG_DL = 86"
definition XED_REG_BL :: xed_reg where "XED_REG_BL = 87"
definition XED_REG_AH :: xed_reg where "XED_REG_AH = 100"
definition XED_REG_CH :: xed_reg where "XED_REG_CH = 101"
definition XED_REG_DH :: xed_reg where "XED_REG_DH = 102"
definition XED_REG_BH :: xed_reg where "XED_REG_BH = 103"

lemmas XED_REG_defs = XED_REG_INVALID_def XED_REG_AX_def XED_REG_CX_def XED_REG_DX_def XED_REG_BX_def
  XED_REG_SI_def XED_REG_DI_def XED_REG_EAX_def XED_REG_ECX_def XED_REG_EDX_def XED_REG_EBX_def
  XED_REG_ESP_def XED_REG_EBP_def XED_REG_ESI_def XED_REG_EDI_def XED_REG_AL_def XED_REG_CL_def
  XED_REG_DL_def XED_REG_BL_def XED_REG_AH_def XED_REG_CH_def XED_REG_DH_def XED_REG_BH_def

text \<open>The row's first column; a register without a row is out of the table's bounds.\<close>

definition regmap0 :: "xed_reg \<Rightarrow> int option" where
  "regmap0 r = (if r < length xed_regmapping then Some (xed_regmapping ! r ! 0) else None)"

text \<open>Array access with the bound of the array; a negative index is out of bounds.\<close>

definition arr :: "nat \<Rightarrow> (nat \<Rightarrow> 'a) \<Rightarrow> int \<Rightarrow> 'a option" where
  "arr n f i = (if 0 \<le> i \<and> i < int n then Some (f (nat i)) else None)"

definition PEMU_get_seg :: "CPUX86State \<Rightarrow> xed_reg \<Rightarrow> u32 option" where
  "PEMU_get_seg env r =
     (if r = XED_REG_INVALID then Some 0
      else do { i \<leftarrow> regmap0 r; sg \<leftarrow> arr 6 (segs env) i; Some (sg_base sg) })"

definition PEMU_get_reg :: "CPUX86State \<Rightarrow> xed_reg \<Rightarrow> u32 option" where
  "PEMU_get_reg env r =
     (if r = XED_REG_INVALID then Some 0
      else do { i \<leftarrow> regmap0 r; arr CPU_NB_REGS (regs env) i })"

definition PEMU_get_cr3 :: "CPUX86State \<Rightarrow> u32" where
  "PEMU_get_cr3 env = cr env 3"

section \<open>Physical memory\<close>

definition phys_read :: "ram \<Rightarrow> u64 \<Rightarrow> nat \<Rightarrow> u8 list" where
  "phys_read m a n = map (\<lambda>i. m (a + word_of_nat i)) [0..<n]"

fun phys_write :: "ram \<Rightarrow> u64 \<Rightarrow> u8 list \<Rightarrow> ram" where
  "phys_write m a [] = m"
| "phys_write m a (b # bs) = phys_write (m(a := b)) (a + 1) bs"

text \<open>Loads are little endian, like the guest and the host.\<close>

fun le_bytes :: "u8 list \<Rightarrow> 'w::len word" where
  "le_bytes [] = 0"
| "le_bytes (b # bs) = ucast b + 256 * le_bytes bs"

definition ldl_phys :: "ram \<Rightarrow> u64 \<Rightarrow> u32" where
  "ldl_phys m a = le_bytes (phys_read m a 4)"

definition ldq_phys :: "ram \<Rightarrow> u64 \<Rightarrow> u64" where
  "ldq_phys m a = le_bytes (phys_read m a 8)"

section \<open>The page walk\<close>

definition CR0_PG_MASK :: u32 where "CR0_PG_MASK = 0x80000000"
definition CR4_PSE_MASK :: u32 where "CR4_PSE_MASK = 0x10"
definition CR4_PAE_MASK :: u32 where "CR4_PAE_MASK = 0x20"
definition PG_PRESENT_MASK :: "'w::len word" where "PG_PRESENT_MASK = 1"
definition PG_PSE_MASK :: "'w::len word" where "PG_PSE_MASK = 0x80"
definition PG_NX_MASK :: u64 where "PG_NX_MASK = 0x8000000000000000"
definition PG_HI_USER_MASK :: u64 where "PG_HI_USER_MASK = 0x7FF0000000000000"
definition TARGET_PAGE_SIZE :: u32 where "TARGET_PAGE_SIZE = 0x1000"
definition TARGET_PAGE_MASK :: u32 where "TARGET_PAGE_MASK = NOT (TARGET_PAGE_SIZE - 1)"

lemmas mask_defs = CR0_PG_MASK_def CR4_PSE_MASK_def CR4_PAE_MASK_def PG_PRESENT_MASK_def
  PG_PSE_MASK_def PG_NX_MASK_def PG_HI_USER_MASK_def TARGET_PAGE_SIZE_def TARGET_PAGE_MASK_def

text \<open>
  The two entries of a walk step are kept apart: the entry of the last level with the size
  of its page, or \<open>None\<close> where the source returns -1. The signed 32-bit mask is extended
  with its sign to 64 bits, and a table address is cut to \<open>target_ulong\<close>.
\<close>

definition a20 :: "CPUX86State \<Rightarrow> u64" where
  "a20 env = scast (a20_mask env)"

definition walk_pae :: "CPUX86State \<Rightarrow> ram \<Rightarrow> u64 \<Rightarrow> (u64 \<times> u64) option" where
  "walk_pae env m addr =
    (let pdpe_addr = ucast ((ucast (cr env 3 AND NOT 0x1F) + (drop_bit 27 addr AND 0x18)) AND a20 env) :: u32;
         pdpe = ldq_phys m (ucast pdpe_addr) in
     if pdpe AND PG_PRESENT_MASK = 0 then None else
     let pde_addr = ucast (((pdpe AND NOT 0xFFF AND NOT (PG_NX_MASK OR PG_HI_USER_MASK)) +
                      push_bit 3 (drop_bit 21 addr AND 0x1FF)) AND a20 env) :: u32;
         pde = ldq_phys m (ucast pde_addr) in
     if pde AND PG_PRESENT_MASK = 0 then None else
     let (page_size, pte) =
       (if pde AND PG_PSE_MASK \<noteq> 0 then (0x200000, pde AND NOT ((0x200000 - 1) AND NOT 0xFFF))
        else let pte_addr = ucast (((pde AND NOT 0xFFF AND NOT (PG_NX_MASK OR PG_HI_USER_MASK)) +
                              push_bit 3 (drop_bit 12 addr AND 0x1FF)) AND a20 env) :: u32
             in (4096, ldq_phys m (ucast pte_addr)));
         pte = pte AND NOT (PG_NX_MASK OR PG_HI_USER_MASK) in
     if pte AND PG_PRESENT_MASK = 0 then None else Some (pte, page_size))"

definition walk_legacy :: "CPUX86State \<Rightarrow> ram \<Rightarrow> u64 \<Rightarrow> (u64 \<times> u64) option" where
  "walk_legacy env m addr =
    (let pde_addr = ucast ((ucast (cr env 3 AND NOT 0xFFF) + (drop_bit 20 addr AND 0xFFC)) AND a20 env) :: u32;
         pde = ldl_phys m (ucast pde_addr) in
     if pde AND PG_PRESENT_MASK = 0 then None
     else if pde AND PG_PSE_MASK \<noteq> 0 \<and> cr env 4 AND CR4_PSE_MASK \<noteq> 0
     then Some (ucast (pde AND NOT 0x003FF000) AND a20 env, 0x400000)
     else
       let pte_addr = ucast ((ucast (pde AND NOT 0xFFF) + (drop_bit 10 addr AND 0xFFC)) AND a20 env) :: u32;
           pte = ucast (ldl_phys m (ucast pte_addr)) :: u64 in
       if pte AND PG_PRESENT_MASK = 0 then None else Some (pte AND a20 env, 4096))"

definition x86_cpu_get_phys_page_debug :: "CPUX86State \<Rightarrow> ram \<Rightarrow> u64 \<Rightarrow> u64" where
  "x86_cpu_get_phys_page_debug env m addr =
    (case (if cr env 0 AND CR0_PG_MASK = 0 then Some (addr AND a20 env, 4096)
           else if cr env 4 AND CR4_PAE_MASK \<noteq> 0 then walk_pae env m addr
           else walk_legacy env m addr) of
       None \<Rightarrow> - 1
     | Some (pte, page_size) \<Rightarrow>
         let page_offset = ucast ((addr AND scast TARGET_PAGE_MASK) AND (page_size - 1)) :: u32
         in (pte AND scast TARGET_PAGE_MASK) + ucast page_offset)"

section \<open>Guest memory access\<close>

text \<open>
  The result is the memory, the buffer and the returned code. The buffer has at least
  \<open>len\<close> bytes.
\<close>

function cpu_memory_rw_debug ::
  "CPUX86State \<Rightarrow> ram \<Rightarrow> u32 \<Rightarrow> u8 list \<Rightarrow> int \<Rightarrow> bool \<Rightarrow> ram \<times> u8 list \<times> int" where
  "cpu_memory_rw_debug env m addr buf len is_write =
    (if len > 0 then
       let page = addr AND TARGET_PAGE_MASK;
           phys_addr = x86_cpu_get_phys_page_debug env m (ucast page) in
       if phys_addr = - 1 then (m, buf, - 1)
       else
         let l = min (uint ((page + TARGET_PAGE_SIZE) - addr)) len;
             phys_addr = phys_addr + ucast (addr AND NOT TARGET_PAGE_MASK);
             m1 = (if is_write then phys_write m phys_addr (take (nat l) buf) else m);
             done = (if is_write then take (nat l) buf else phys_read m phys_addr (nat l));
             (m2, rest, r) = cpu_memory_rw_debug env m1 (addr + word_of_int l) (drop (nat l) buf) (len - l) is_write
         in (m2, done @ rest, r)
     else (m, buf, 0))"
  by pat_completeness auto

definition PEMU_read_mem :: "CPUX86State \<Rightarrow> ram \<Rightarrow> u32 \<Rightarrow> int \<Rightarrow> u8 list \<Rightarrow> u8 list \<times> int" where
  "PEMU_read_mem env m vaddr len buf = snd (cpu_memory_rw_debug env m vaddr buf len False)"

text \<open>
  A 32-bit local filled by \<open>PEMU_read_mem\<close>; where the call fails the local is left (partly)
  uninitialised and its use is \<open>None\<close>.
\<close>

definition read_u32 :: "CPUX86State \<Rightarrow> ram \<Rightarrow> u32 \<Rightarrow> u32 option" where
  "read_u32 env m a =
     (case PEMU_read_mem env m a 4 (replicate 4 0) of (bs, r) \<Rightarrow> if r = 0 then Some (le_bytes bs) else None)"

section \<open>Pages of virtual addresses\<close>

lemma page_mask_and: "(a::u32) AND NOT TARGET_PAGE_MASK = take_bit 12 a"
  by (simp add: mask_defs take_bit_eq_mask mask_eq_exp_minus_1)

lemma page_mask_minus: "(a::u32) AND TARGET_PAGE_MASK = a - take_bit 12 a"
proof -
  have "TARGET_PAGE_MASK = NOT (mask 12)"
    by (simp add: mask_defs mask_eq_exp_minus_1)
  moreover have "a - take_bit 12 a = a AND NOT (take_bit 12 a)"
    by (rule disjunctive_diff) (simp add: bit_take_bit_iff)
  moreover have "a AND NOT (take_bit 12 a) = a AND NOT (mask 12)"
    by (rule bit_word_eqI) (auto simp: bit_simps)
  ultimately show ?thesis by simp
qed

lemma unat_take12: "unat (take_bit 12 (a::u32)) = unat a mod 4096"
  by (simp only: take_bit_eq_mod unat_mod) simp

lemma chunk_size: "uint ((a AND TARGET_PAGE_MASK) + TARGET_PAGE_SIZE - a) = 4096 - int (unat (a::u32) mod 4096)"
proof -
  have "(a AND TARGET_PAGE_MASK) + TARGET_PAGE_SIZE - a = 4096 - take_bit 12 a"
    by (simp add: page_mask_minus TARGET_PAGE_SIZE_def)
  moreover have "take_bit 12 a \<le> 4096"
    by (simp add: word_le_nat_alt unat_take12)
  ultimately show ?thesis
    by (simp add: uint_nat unat_sub unat_take12 of_nat_diff)
qed

termination cpu_memory_rw_debug
  by (relation "measure (\<lambda>(env, m, addr, buf, len, w). nat len)")
    (auto simp: chunk_size min_def)

lemma page_step:
  assumes "unat (a::u32) mod 4096 + i < 4096"
  shows "take_bit 12 (a + word_of_nat i) = take_bit 12 a + word_of_nat i"
    and "(a + word_of_nat i) AND TARGET_PAGE_MASK = a AND TARGET_PAGE_MASK"
proof -
  have i: "unat (word_of_nat i :: u32) = i"
    using assms by (simp add: unat_of_nat)
  have "(unat a + i) mod 2 ^ 32 mod 4096 = (unat a + i) mod 4096"
    by (rule mod_mod_cancel) simp
  also have "\<dots> = (unat a mod 4096 + i) mod 4096"
    by (simp only: mod_add_left_eq)
  also have "\<dots> = unat a mod 4096 + i"
    using assms by simp
  finally have "unat (take_bit 12 (a + word_of_nat i)) = unat a mod 4096 + i"
    by (simp only: unat_take12 unat_word_ariths i) simp
  moreover have "unat (take_bit 12 a + word_of_nat i :: u32) = unat a mod 4096 + i"
    using assms by (simp only: unat_take12 unat_word_ariths i) simp
  ultimately have "unat (take_bit 12 (a + word_of_nat i)) = unat (take_bit 12 a + word_of_nat i :: u32)"
    by simp
  thus *: "take_bit 12 (a + word_of_nat i) = take_bit 12 a + word_of_nat i"
    by (simp only: word_unat_eq_iff)
  show "(a + word_of_nat i) AND TARGET_PAGE_MASK = a AND TARGET_PAGE_MASK"
    by (simp add: page_mask_minus *)
qed

lemma unat_zext [simp]: "unat (ucast (x::u32) :: u64) = unat x"
  by transfer (simp add: take_bit_int_eq_self_iff order_less_le_trans [OF take_bit_int_less_exp])

lemma page_step_ucast:
  assumes "unat (a::u32) mod 4096 + i < 4096"
  shows "(ucast (take_bit 12 (a + word_of_nat i)) :: u64) = ucast (take_bit 12 a) + word_of_nat i"
proof -
  have i: "unat (word_of_nat i :: u32) = i" "unat (word_of_nat i :: u64) = i"
    using assms by (simp_all add: unat_of_nat)
  have "unat (take_bit 12 a + word_of_nat i :: u32) = unat a mod 4096 + i"
    using assms by (simp only: unat_take12 unat_word_ariths i) simp
  moreover have "unat ((ucast (take_bit 12 a) :: u64) + word_of_nat i) = unat a mod 4096 + i"
    using assms by (simp only: unat_zext unat_word_ariths i unat_take12) simp
  ultimately show ?thesis
    by (simp add: page_step(1) [OF assms] word_unat_eq_iff)
qed

section \<open>Guest memory byte by byte\<close>

text \<open>
  What one virtual address holds: the byte at the translated page plus the offset in the
  page, or nothing when the page is not mapped.
\<close>

definition xlate :: "CPUX86State \<Rightarrow> ram \<Rightarrow> u32 \<Rightarrow> u64 option" where
  "xlate env m a =
     (let p = x86_cpu_get_phys_page_debug env m (ucast (a AND TARGET_PAGE_MASK))
      in if p = - 1 then None else Some (p + ucast (take_bit 12 a)))"

fun virt_bytes :: "CPUX86State \<Rightarrow> ram \<Rightarrow> u32 \<Rightarrow> nat \<Rightarrow> u8 list option" where
  "virt_bytes env m a 0 = Some []"
| "virt_bytes env m a (Suc n) =
     do { p \<leftarrow> xlate env m a; bs \<leftarrow> virt_bytes env m (a + 1) n; Some (m p # bs) }"

lemma virt_bytes_add:
  "virt_bytes env m a (k + n) =
     do { bs \<leftarrow> virt_bytes env m a k; cs \<leftarrow> virt_bytes env m (a + word_of_nat k) n; Some (bs @ cs) }"
proof (induction k arbitrary: a)
  case 0
  thus ?case by (cases "virt_bytes env m a n") simp_all
next
  case (Suc k)
  have "a + 1 + word_of_nat k = a + word_of_nat (Suc k)" by simp
  thus ?case using Suc [of "a + 1"]
    by (cases "xlate env m a"; cases "virt_bytes env m (a + 1) k";
        cases "virt_bytes env m (a + word_of_nat (Suc k)) n") (simp_all add: add.assoc)
qed

lemma phys_read_Suc: "phys_read m a (Suc n) = m a # phys_read m (a + 1) n"
  by (simp add: phys_read_def map_upt_Suc add.assoc del: upt_Suc)

lemma virt_bytes_page:
  assumes "unat a mod 4096 + l \<le> 4096" and "xlate env m a = Some p"
  shows "virt_bytes env m a l = Some (phys_read m p l)"
  using assms
proof (induction l arbitrary: a p)
  case 0
  thus ?case by (simp add: phys_read_def)
next
  case (Suc l)
  show ?case
  proof (cases l)
    case 0
    thus ?thesis using Suc.prems by (simp add: phys_read_def)
  next
    case (Suc l')
    have lt: "unat a mod 4096 + 1 < 4096" using Suc.prems(1) Suc by simp
    have step: "(a + 1) AND TARGET_PAGE_MASK = a AND TARGET_PAGE_MASK"
      "(ucast (take_bit 12 (a + 1)) :: u64) = ucast (take_bit 12 a) + 1"
      "take_bit 12 (a + 1) = take_bit 12 a + 1"
      using page_step [OF lt] page_step_ucast [OF lt] by simp_all
    have "unat (take_bit 12 (a + 1)) = unat a mod 4096 + 1"
      using lt by (simp only: step(3) unat_word_ariths unat_take12) simp
    hence "unat (a + 1) mod 4096 + l \<le> 4096"
      using Suc.prems(1) by (simp only: unat_take12)
    moreover have "xlate env m (a + 1) = Some (p + 1)"
      using Suc.prems(2) by (auto simp: xlate_def step(1,2) Let_def add.assoc split: if_splits)
    ultimately have "virt_bytes env m (a + 1) l = Some (phys_read m (p + 1) l)"
      by (rule Suc.IH)
    thus ?thesis using Suc.prems(2) by (simp add: phys_read_Suc)
  qed
qed

lemma xlate_unmapped:
  "xlate env m a = None \<longleftrightarrow> x86_cpu_get_phys_page_debug env m (ucast (a AND TARGET_PAGE_MASK)) = - 1"
  by (simp add: xlate_def Let_def)

declare cpu_memory_rw_debug.simps [simp del]

lemma rw_debug_read:
  "case virt_bytes env m a (nat len) of
     Some bs \<Rightarrow> cpu_memory_rw_debug env m a buf len False = (m, bs @ drop (nat len) buf, 0)
   | None \<Rightarrow> fst (cpu_memory_rw_debug env m a buf len False) = m \<and>
       snd (snd (cpu_memory_rw_debug env m a buf len False)) = - 1"
proof (induction "nat len" arbitrary: a buf len rule: less_induct)
  case less
  define l where "l = min (uint ((a AND TARGET_PAGE_MASK) + TARGET_PAGE_SIZE - a)) len"
  show ?case
  proof (cases "len > 0")
    case False
    thus ?thesis by (simp add: cpu_memory_rw_debug.simps)
  next
    case True
    hence l: "0 < l" "l \<le> len" "unat a mod 4096 + nat l \<le> 4096"
      by (auto simp: l_def chunk_size)
    have split: "nat len = nat l + nat (len - l)" using l by simp
    have ih: "case virt_bytes env m (a + word_of_int l) (nat (len - l)) of
       Some bs \<Rightarrow> cpu_memory_rw_debug env m (a + word_of_int l) (drop (nat l) buf) (len - l) False =
         (m, bs @ drop (nat (len - l)) (drop (nat l) buf), 0)
     | None \<Rightarrow> fst (cpu_memory_rw_debug env m (a + word_of_int l) (drop (nat l) buf) (len - l) False) = m \<and>
       snd (snd (cpu_memory_rw_debug env m (a + word_of_int l) (drop (nat l) buf) (len - l) False)) = - 1"
      using l by (intro less.hyps) simp
    show ?thesis
    proof (cases "xlate env m a")
      case None
      have "\<exists>k. nat len = Suc k" using True by (intro exI [of _ "nat len - 1"]) simp
      thus ?thesis using None True
        by (auto simp: cpu_memory_rw_debug.simps [of env m a] xlate_unmapped [THEN iffD1])
    next
      case (Some p)
      have p: "p = x86_cpu_get_phys_page_debug env m (ucast (a AND TARGET_PAGE_MASK)) + ucast (take_bit 12 a)"
        and np: "x86_cpu_get_phys_page_debug env m (ucast (a AND TARGET_PAGE_MASK)) \<noteq> - 1"
        using Some by (auto simp: xlate_def Let_def split: if_splits)
      have w: "word_of_nat (nat l) = (word_of_int l :: u32)" using l by (simp add: of_nat_nat)
      have vb: "virt_bytes env m a (nat len) =
          do { cs \<leftarrow> virt_bytes env m (a + word_of_int l) (nat (len - l)); Some (phys_read m p (nat l) @ cs) }"
        unfolding split virt_bytes_add by (simp add: virt_bytes_page [OF l(3) Some] w)
      have rw: "cpu_memory_rw_debug env m a buf len False =
         (case cpu_memory_rw_debug env m (a + word_of_int l) (drop (nat l) buf) (len - l) False of
           (m2, rest, r) \<Rightarrow> (m2, phys_read m p (nat l) @ rest, r))"
        using True np by (subst cpu_memory_rw_debug.simps) (simp add: Let_def page_mask_and p l_def)
      have dr: "drop (nat (len - l)) (drop (nat l) buf) = drop (nat len) buf"
        unfolding split by (simp add: add.commute)
      show ?thesis
        using ih by (auto simp: vb rw dr simp del: drop_drop split: option.splits prod.splits)
    qed
  qed
qed

lemma read_u32_bytes: "read_u32 env m a = map_option le_bytes (virt_bytes env m a 4)"
  using rw_debug_read [where env = env and m = m and a = a and len = 4 and buf = "replicate 4 0"]
  by (auto simp: read_u32_def PEMU_read_mem_def split: option.splits prod.splits)

section \<open>Register lookups\<close>

definition mapped_reg :: "xed_reg \<Rightarrow> bool" where
  "mapped_reg r \<longleftrightarrow> 36 \<le> r \<and> r < 44 \<or> 52 \<le> r \<and> r < 60 \<or> 84 \<le> r \<and> r < 88 \<or>
     100 \<le> r \<and> r < 104 \<or> 133 \<le> r \<and> r < 139"

lemma regmapping_length: "length xed_regmapping = 232"
  by (simp add: xed_regmapping_def)

lemma regmapping_rows:
  "list_all (\<lambda>(r, row). (mapped_reg r \<longleftrightarrow> 0 \<le> row ! 0) \<and> row ! 0 < 8) (enumerate 0 xed_regmapping)"
  by code_simp

lemma regmap0_range:
  "r < 232 \<Longrightarrow> \<exists>i. regmap0 r = Some i \<and> (mapped_reg r \<longleftrightarrow> 0 \<le> i) \<and> i < 8"
  using regmapping_rows
  by (auto simp: regmap0_def regmapping_length list_all_length nth_enumerate_eq)

lemma mapped_reg_less: "mapped_reg r \<Longrightarrow> r < 232"
  by (auto simp: mapped_reg_def)

section \<open>Properties\<close>

text \<open>
  C15: Reading guest memory through the page tables is bytewise: when every byte of the
  range is mapped, the call returns 0 and the buffer holds the bytes found by translating
  each address alone, whatever pages the range crosses and also when it wraps around at
  2^32; when some byte is not mapped it returns -1. The loop always ends.
\<close>

theorem guest_read_bytes:
  "case virt_bytes env m vaddr n of
     Some bs \<Rightarrow> PEMU_read_mem env m vaddr (int n) buf = (bs @ drop n buf, 0)
   | None \<Rightarrow> snd (PEMU_read_mem env m vaddr (int n) buf) = - 1"
  using rw_debug_read [where env = env and m = m and a = vaddr and len = "int n" and buf = buf]
  by (auto simp: PEMU_read_mem_def split: option.splits)


end
