(* ===== verification/Callstack.thy ===== *)
theory Callstack
  imports GuestCpu
begin

text \<open>
  The call stack recorder of \<open>lib_map.cpp\<close>: \<open>get_callstack_ebp\<close> walks the guest kernel's
  frame pointers and prints the return addresses, bounded by the kernel stack or by the stack
  pointer saved for the innermost interrupt (\<open>g_interrupt_esp\<close>). \<open>None\<close> is undefined
  behaviour or a walk that does not return. The constants are those of the active
  configuration in \<open>config_pemu.h\<close>.
\<close>

section \<open>Configuration\<close>

definition STACK_SIZE :: u32 where "STACK_SIZE = 0x2000"
definition KERNEL_ESP :: u32 where "KERNEL_ESP = 0xC1C07F80 - 0x217C"

definition TIME_INTERRUPT :: "u32 \<Rightarrow> bool" where "TIME_INTERRUPT ret_addr \<longleftrightarrow> ret_addr = 0xC1003BF5"
definition COMMON_INTERRUPT :: "u32 \<Rightarrow> bool" where "COMMON_INTERRUPT ret_addr \<longleftrightarrow> ret_addr = 0xC10038B0"
definition COMMON_EXCEPTION :: "u32 \<Rightarrow> bool" where "COMMON_EXCEPTION ret_addr \<longleftrightarrow> ret_addr = 0xC1269ECB"
definition HARD_CODE_SCHED1 :: "u32 \<Rightarrow> bool" where
  "HARD_CODE_SCHED1 pc \<longleftrightarrow> pc \<ge> 0xC1268A66 \<and> pc \<le> 0xC1268A88"
definition HARD_CODE_SCHED2 :: "u32 \<Rightarrow> bool" where
  "HARD_CODE_SCHED2 ret_addr \<longleftrightarrow> ret_addr \<ge> 0xC1268A66 \<and> ret_addr \<le> 0xC1268A88"

lemmas config_defs = TIME_INTERRUPT_def COMMON_INTERRUPT_def COMMON_EXCEPTION_def HARD_CODE_SCHED1_def
  HARD_CODE_SCHED2_def

definition get_kernel_esp :: "CPUX86State \<Rightarrow> ram \<Rightarrow> u32 option" where
  "get_kernel_esp env m = read_u32 env m KERNEL_ESP"

section \<open>Numbers as text\<close>

definition hex_digit :: "nat \<Rightarrow> char" where
  "hex_digit d = (if d < 10 then char_of (48 + d) else char_of (87 + d))"

fun hex_nat :: "nat \<Rightarrow> string" where
  "hex_nat n = (if n < 16 then [hex_digit n] else hex_nat (n div 16) @ [hex_digit (n mod 16)])"

fun dec_nat :: "nat \<Rightarrow> string" where
  "dec_nat n = (if n < 10 then [hex_digit n] else dec_nat (n div 10) @ [hex_digit (n mod 10)])"

definition int_to_string :: "u32 \<Rightarrow> string" where
  "int_to_string addr = hex_nat (unat addr)"

section \<open>Interrupt stacks\<close>

record ESP =
  max_esp :: u32
  int_num :: u32

type_synonym esp_map = "u32 \<rightharpoonup> ESP list"

definition add_interrupt_esp :: "u32 \<Rightarrow> u32 \<Rightarrow> u32 \<Rightarrow> esp_map \<Rightarrow> esp_map" where
  "add_interrupt_esp esp_key mx num m =
     m(esp_key \<mapsto> \<lparr>max_esp = mx, int_num = num\<rparr> # (case m esp_key of None \<Rightarrow> [] | Some st \<Rightarrow> st))"

text \<open>The top of an empty stack is undefined.\<close>

definition get_interrupt_new :: "u32 \<Rightarrow> esp_map \<Rightarrow> ESP option" where
  "get_interrupt_new esp_key m =
     (case m esp_key of
        None \<Rightarrow> Some \<lparr>max_esp = 0, int_num = 0\<rparr>
      | Some [] \<Rightarrow> None
      | Some (e # _) \<Rightarrow> Some e)"

definition delete_interrupt_esp :: "u32 \<Rightarrow> esp_map \<Rightarrow> esp_map" where
  "delete_interrupt_esp esp_key m =
     (case m esp_key of
        None \<Rightarrow> m
      | Some [] \<Rightarrow> m
      | Some (_ # st) \<Rightarrow> if st = [] then m(esp_key := None) else m(esp_key \<mapsto> st))"

section \<open>The frame walk\<close>

text \<open>
  Reading guest memory over a 32-bit variable: on failure the variable keeps the bytes that
  were not reached. A variable that was not initialised stays so.
\<close>

definition u32_bytes :: "u32 \<Rightarrow> u8 list" where
  "u32_bytes v = [ucast v, ucast (drop_bit 8 v), ucast (drop_bit 16 v), ucast (drop_bit 24 v)]"

definition read_over :: "CPUX86State \<Rightarrow> ram \<Rightarrow> u32 \<Rightarrow> u32 \<Rightarrow> u32 \<times> int" where
  "read_over env m a v = (case PEMU_read_mem env m a 4 (u32_bytes v) of (bs, r) \<Rightarrow> (le_bytes bs, r))"

definition read_var :: "CPUX86State \<Rightarrow> ram \<Rightarrow> u32 \<Rightarrow> u32 option \<Rightarrow> u32 option" where
  "read_var env m a v =
     (case v of None \<Rightarrow> read_u32 env m a | Some v \<Rightarrow> Some (fst (read_over env m a v)))"

partial_function (option) callstack_loop ::
  "CPUX86State \<Rightarrow> ram \<Rightarrow> u32 \<Rightarrow> u32 \<Rightarrow> u32 \<Rightarrow> u32 option \<Rightarrow> string \<Rightarrow> string option" where
  "callstack_loop env m kernel_esp esp_max ebp ret_addr str =
     (if ebp < kernel_esp \<or> ebp + 4 \<ge> esp_max then Some str
      else do {
        r \<leftarrow> read_var env m (ebp + 4) ret_addr;
        let str = int_to_string r @ ''->'' @ str;
        if HARD_CODE_SCHED2 r
        then callstack_loop env m kernel_esp esp_max (fst (read_over env m (ebp + 8) ebp)) (Some r) str
        else
          let (ebp', code) = read_over env m ebp ebp in
          if code < 0 \<or> TIME_INTERRUPT r \<or> COMMON_INTERRUPT r \<or> COMMON_EXCEPTION r then Some str
          else callstack_loop env m kernel_esp esp_max ebp' (Some r) str })"

declare callstack_loop.simps [code]

definition get_callstack_ebp :: "CPUX86State \<Rightarrow> ram \<Rightarrow> esp_map \<Rightarrow> u32 \<Rightarrow> string option" where
  "get_callstack_ebp env m ie pc = do {
     esp \<leftarrow> PEMU_get_reg env XED_REG_ESP;
     let kernel_esp = esp AND 0xFFFFE000;
     info \<leftarrow> get_interrupt_new kernel_esp ie;
     let (esp_max, num) = (if max_esp info \<noteq> 0 then (max_esp info, int_num info)
                           else (kernel_esp + STACK_SIZE, - 1));
     ebp \<leftarrow> (if HARD_CODE_SCHED1 pc then read_u32 env m esp else PEMU_get_reg env XED_REG_EBP);
     str \<leftarrow> callstack_loop env m kernel_esp esp_max ebp None (int_to_string pc);
     Some (if num \<noteq> - 1 then ''I-'' @ dec_nat (unat num) @ '':'' @ str else str) }"

section \<open>Interrupt stacks: no empty stack is kept\<close>

definition esp_ok :: "esp_map \<Rightarrow> bool" where
  "esp_ok m \<longleftrightarrow> (\<forall>k. m k \<noteq> Some [])"

lemma esp_ok_empty: "esp_ok Map.empty"
  by (simp add: esp_ok_def)

lemma esp_ok_add: "esp_ok m \<Longrightarrow> esp_ok (add_interrupt_esp k x n m)"
  by (auto simp: esp_ok_def add_interrupt_esp_def)

lemma esp_ok_delete: "esp_ok m \<Longrightarrow> esp_ok (delete_interrupt_esp k m)"
  by (auto simp: esp_ok_def delete_interrupt_esp_def split: option.splits list.splits)

lemma esp_ok_get: "esp_ok m \<Longrightarrow> \<exists>e. get_interrupt_new k m = Some e"
  by (auto simp: esp_ok_def get_interrupt_new_def split: option.splits list.splits)

text \<open>Interrupt entry and return as steps, and the runs of such steps.\<close>

datatype esp_op = Enter u32 u32 u32 | Leave u32

fun esp_step :: "esp_op \<Rightarrow> esp_map \<Rightarrow> esp_map" where
  "esp_step (Enter k x n) m = add_interrupt_esp k x n m"
| "esp_step (Leave k) m = delete_interrupt_esp k m"

lemma esp_ok_run: "esp_ok m \<Longrightarrow> esp_ok (fold esp_step ops m)"
proof (induction ops arbitrary: m)
  case (Cons op ops)
  thus ?case by (cases op) (simp_all add: esp_ok_add esp_ok_delete)
qed simp

lemma delete_add: "esp_ok m \<Longrightarrow> delete_interrupt_esp k (add_interrupt_esp k x n m) = m"
  by (auto simp: esp_ok_def delete_interrupt_esp_def add_interrupt_esp_def split: option.splits)

text \<open>Properly nested runs on one kernel stack.\<close>

inductive nested :: "esp_op list \<Rightarrow> bool" where
  nested_nil: "nested []"
| nested_app: "nested xs \<Longrightarrow> nested ys \<Longrightarrow> nested (xs @ ys)"
| nested_wrap: "nested xs \<Longrightarrow> nested (Enter k x n # xs @ [Leave k])"

lemma nested_restores: "nested ops \<Longrightarrow> esp_ok m \<Longrightarrow> fold esp_step ops m = m"
proof (induction arbitrary: m rule: nested.induct)
  case (nested_wrap xs k x n)
  thus ?case using esp_ok_add [of m k x n] delete_add by simp
qed (simp_all add: esp_ok_run)

section \<open>The text determines the call stack\<close>

declare hex_nat.simps [simp del] dec_nat.simps [simp del]

definition digit_val :: "char \<Rightarrow> nat" where
  "digit_val c = (if of_char c < (58::nat) then of_char c - 48 else of_char c - 87)"

lemma digit_val_hex: "d < 16 \<Longrightarrow> digit_val (hex_digit d) = d"
  by (auto simp: digit_val_def hex_digit_def)

lemma hex_digit_range: "d < 16 \<Longrightarrow> of_char (hex_digit d) \<in> {48::nat..102} - {58..96}"
  by (auto simp: hex_digit_def)

lemma hex_nat_val: "foldl (\<lambda>v c. 16 * v + digit_val c) 0 (hex_nat n) = n"
  by (induction n rule: hex_nat.induct) (subst hex_nat.simps, simp add: digit_val_hex)

lemma dec_nat_val: "foldl (\<lambda>v c. 10 * v + digit_val c) 0 (dec_nat n) = n"
  by (induction n rule: dec_nat.induct) (subst dec_nat.simps, simp add: digit_val_hex)

lemma hex_nat_inj: "hex_nat a = hex_nat b \<Longrightarrow> a = b"
  by (metis hex_nat_val)

lemma dec_nat_inj: "dec_nat a = dec_nat b \<Longrightarrow> a = b"
  by (metis dec_nat_val)

lemma hex_nat_chars: "c \<in> set (hex_nat n) \<Longrightarrow> of_char c \<in> {48::nat..102} - {58..96}"
proof (induction n rule: hex_nat.induct)
  case (1 n)
  have d: "of_char (hex_digit (n mod 16)) \<in> {48::nat..102} - {58..96}"
    by (rule hex_digit_range) (simp add: order_less_le_trans [OF mod_less_divisor])
  show ?case
  proof (cases "n < 16")
    case True
    thus ?thesis using 1(2) d by (simp add: hex_nat.simps [of n])
  next
    case False
    thus ?thesis using 1(1) 1(2) d by (auto simp: hex_nat.simps [of n] simp del: Diff_iff atLeastAtMost_iff)
  qed
qed

lemma dec_nat_chars: "c \<in> set (dec_nat n) \<Longrightarrow> of_char c \<in> {48::nat..102} - {58..96}"
proof (induction n rule: dec_nat.induct)
  case (1 n)
  have d: "of_char (hex_digit (n mod 10)) \<in> {48::nat..102} - {58..96}"
    by (rule hex_digit_range) (simp add: order_less_le_trans [OF mod_less_divisor])
  show ?case
  proof (cases "n < 10")
    case True
    thus ?thesis using 1(2) d by (simp add: dec_nat.simps [of n])
  next
    case False
    thus ?thesis using 1(1) 1(2) d by (auto simp: dec_nat.simps [of n] simp del: Diff_iff atLeastAtMost_iff)
  qed
qed

lemma int_to_string_chars: "c \<in> set (int_to_string a) \<Longrightarrow> of_char c \<in> {48::nat..102} - {58..96}"
  unfolding int_to_string_def by (rule hex_nat_chars)

lemma int_to_string_no_sep [simp]:
  "CHR ''-'' \<notin> set (int_to_string a)" "CHR ''I'' \<notin> set (int_to_string a)"
  using int_to_string_chars [of "CHR ''-''" a] int_to_string_chars [of "CHR ''I''" a] by auto

lemma dec_nat_no_sep [simp]: "CHR '':'' \<notin> set (dec_nat n)"
  using dec_nat_chars [of "CHR '':''" n] by auto

lemma int_to_string_inj [simp]: "int_to_string a = int_to_string b \<longleftrightarrow> a = b"
  using hex_nat_inj [of "unat a" "unat b"] by (auto simp: int_to_string_def word_unat_eq_iff)

lemma int_to_string_nonempty [simp]: "int_to_string a \<noteq> []"
  unfolding int_to_string_def by (subst hex_nat.simps) simp

lemma sep_eq: "c \<notin> set a \<Longrightarrow> c \<notin> set b \<Longrightarrow> a @ c # x = b @ c # y \<longleftrightarrow> a = b \<and> x = y"
proof (induction a arbitrary: b)
  case Nil
  thus ?case by (cases b) auto
next
  case (Cons z a)
  thus ?case by (cases b) auto
qed

text \<open>Return addresses from the outermost in, and the program counter.\<close>

definition frames_text :: "u32 list \<Rightarrow> u32 \<Rightarrow> string" where
  "frames_text rets pc = concat (map (\<lambda>r. int_to_string r @ ''->'') rets) @ int_to_string pc"

definition callstack_text :: "u32 \<Rightarrow> u32 list \<Rightarrow> u32 \<Rightarrow> string" where
  "callstack_text num rets pc =
     (if num \<noteq> - 1 then ''I-'' @ dec_nat (unat num) @ '':'' @ frames_text rets pc else frames_text rets pc)"

lemma frames_text_simps [simp]:
  "frames_text [] pc = int_to_string pc"
  "frames_text (r # rets) pc = int_to_string r @ CHR ''-'' # CHR ''>'' # frames_text rets pc"
  by (simp_all add: frames_text_def)

lemma frames_text_snoc:
  "frames_text (rev (r # rets)) pc = concat (map (\<lambda>r. int_to_string r @ ''->'') (rev rets)) @ int_to_string r @ ''->'' @ int_to_string pc"
  by (simp add: frames_text_def)

lemma frames_text_inj: "frames_text xs p = frames_text ys q \<Longrightarrow> xs = ys \<and> p = q"
proof (induction xs arbitrary: ys)
  case Nil
  thus ?case
  proof (cases ys)
    case (Cons y ys')
    hence "CHR ''-'' \<in> set (frames_text ys q)" by simp
    moreover have "CHR ''-'' \<notin> set (frames_text [] p)" by simp
    ultimately show ?thesis unfolding Nil.prems [symmetric] by blast
  qed simp
next
  case (Cons x xs)
  show ?case
  proof (cases ys)
    case Nil
    hence "CHR ''-'' \<notin> set (frames_text ys q)" by simp
    moreover have "CHR ''-'' \<in> set (frames_text (x # xs) p)" by simp
    ultimately show ?thesis unfolding Cons.prems by blast
  next
    case (Cons y ys')
    thus ?thesis using Cons.prems Cons.IH [of ys'] by (simp add: sep_eq)
  qed
qed

lemma frames_text_not_I: "frames_text xs p \<noteq> CHR ''I'' # r"
proof
  assume I: "frames_text xs p = CHR ''I'' # r"
  obtain a where "hd (frames_text xs p) = hd (int_to_string a)"
    by (cases xs) simp_all
  hence "hd (frames_text xs p) \<in> set (int_to_string a)" by simp
  thus False by (simp add: I)
qed

lemma callstack_text_inj:
  "callstack_text n xs p = callstack_text n' ys q \<Longrightarrow> n = n' \<and> xs = ys \<and> p = q"
  using frames_text_inj [of xs p ys q] frames_text_not_I [of xs p] frames_text_not_I [of ys q, THEN not_sym]
  by (auto simp: callstack_text_def sep_eq word_unat_eq_iff dest: dec_nat_inj split: if_splits)

section \<open>Chains of frames\<close>

lemma read_over_ok: "read_u32 env m a = Some w \<Longrightarrow> read_over env m a v = (w, 0)"
  using rw_debug_read [where env = env and m = m and a = a and len = 4 and buf = "u32_bytes v"]
  by (auto simp: read_over_def PEMU_read_mem_def read_u32_bytes u32_bytes_def)

lemma read_over_fail: "read_u32 env m a = None \<Longrightarrow> snd (read_over env m a v) < 0"
  using rw_debug_read [where env = env and m = m and a = a and len = 4 and buf = "u32_bytes v"]
  by (auto simp: read_over_def PEMU_read_mem_def read_u32_bytes split: prod.splits)

lemma read_var_ok: "read_u32 env m a = Some w \<Longrightarrow> read_var env m a v = Some w"
  by (auto simp: read_var_def read_over_ok split: option.splits)

definition in_stack :: "u32 \<Rightarrow> u32 \<Rightarrow> u32 \<Rightarrow> bool" where
  "in_stack lo hi ebp \<longleftrightarrow> lo \<le> ebp \<and> ebp + 4 < hi"

definition is_entry :: "u32 \<Rightarrow> bool" where
  "is_entry r \<longleftrightarrow> TIME_INTERRUPT r \<or> COMMON_INTERRUPT r \<or> COMMON_EXCEPTION r"

text \<open>
  The return addresses of the frames that hang on a frame pointer, innermost first. The
  scheduler's frame has its caller's frame pointer elsewhere; an interrupt entry ends the
  chain, and so does a frame pointer outside the stack.
\<close>

inductive frame_chain :: "CPUX86State \<Rightarrow> ram \<Rightarrow> u32 \<Rightarrow> u32 \<Rightarrow> u32 \<Rightarrow> u32 list \<Rightarrow> bool"
  for env m lo hi where
  chain_out: "\<not> in_stack lo hi ebp \<Longrightarrow> frame_chain env m lo hi ebp []"
| chain_sched: "in_stack lo hi ebp \<Longrightarrow> read_u32 env m (ebp + 4) = Some r \<Longrightarrow> HARD_CODE_SCHED2 r \<Longrightarrow>
    read_u32 env m (ebp + 8) = Some e \<Longrightarrow> frame_chain env m lo hi e rs \<Longrightarrow> frame_chain env m lo hi ebp (r # rs)"
| chain_stop: "in_stack lo hi ebp \<Longrightarrow> read_u32 env m (ebp + 4) = Some r \<Longrightarrow> \<not> HARD_CODE_SCHED2 r \<Longrightarrow>
    read_u32 env m ebp = None \<or> is_entry r \<Longrightarrow> frame_chain env m lo hi ebp [r]"
| chain_next: "in_stack lo hi ebp \<Longrightarrow> read_u32 env m (ebp + 4) = Some r \<Longrightarrow> \<not> HARD_CODE_SCHED2 r \<Longrightarrow>
    \<not> is_entry r \<Longrightarrow> read_u32 env m ebp = Some e \<Longrightarrow> frame_chain env m lo hi e rs \<Longrightarrow>
    frame_chain env m lo hi ebp (r # rs)"

lemma callstack_loop_out: "\<not> in_stack lo hi ebp \<Longrightarrow> callstack_loop env m lo hi ebp ra str = Some str"
  by (subst callstack_loop.simps) (auto simp: in_stack_def)

lemma callstack_loop_in:
  assumes "in_stack lo hi ebp" "read_u32 env m (ebp + 4) = Some r"
  shows "callstack_loop env m lo hi ebp ra str =
    (if HARD_CODE_SCHED2 r
     then callstack_loop env m lo hi (fst (read_over env m (ebp + 8) ebp)) (Some r) (int_to_string r @ ''->'' @ str)
     else if snd (read_over env m ebp ebp) < 0 \<or> is_entry r then Some (int_to_string r @ ''->'' @ str)
     else callstack_loop env m lo hi (fst (read_over env m ebp ebp)) (Some r) (int_to_string r @ ''->'' @ str))"
  using assms(1)
  by (subst callstack_loop.simps)
    (auto simp: in_stack_def is_entry_def read_var_ok [OF assms(2)] Let_def split: prod.splits)

lemma callstack_loop_chain:
  "frame_chain env m lo hi ebp rets \<Longrightarrow>
   callstack_loop env m lo hi ebp ra str = Some (concat (map (\<lambda>r. int_to_string r @ ''->'') (rev rets)) @ str)"
proof (induction arbitrary: ra str rule: frame_chain.induct)
  case (chain_out ebp)
  thus ?case by (simp add: callstack_loop_out)
next
  case (chain_sched ebp r e rs)
  thus ?case by (simp add: callstack_loop_in read_over_ok)
next
  case (chain_stop ebp r)
  thus ?case using read_over_fail [of env m ebp ebp] by (auto simp: callstack_loop_in)
next
  case (chain_next ebp r e rs)
  thus ?case by (simp add: callstack_loop_in read_over_ok)
qed

text \<open>
  Frames that lie one above the other, as calls leave them: the set is closed under the walk,
  every frame in the stack can be read, and the saved frame pointer is higher.
\<close>

definition ascending :: "CPUX86State \<Rightarrow> ram \<Rightarrow> u32 \<Rightarrow> u32 \<Rightarrow> u32 set \<Rightarrow> bool" where
  "ascending env m lo hi F \<longleftrightarrow> (\<forall>ebp \<in> F. in_stack lo hi ebp \<longrightarrow>
     (\<exists>r. read_u32 env m (ebp + 4) = Some r \<and>
       (if HARD_CODE_SCHED2 r then \<exists>e \<in> F. read_u32 env m (ebp + 8) = Some e \<and> ebp < e
        else is_entry r \<or> (\<exists>e \<in> F. read_u32 env m ebp = Some e \<and> ebp < e))))"

lemma ascending_chain:
  assumes "ascending env m lo hi F" "ebp \<in> F"
  shows "\<exists>rets. frame_chain env m lo hi ebp rets"
  using assms(2)
proof (induction "2 ^ 32 - unat ebp" arbitrary: ebp rule: less_induct)
  case less
  have step: "\<exists>rs. frame_chain env m lo hi e rs" if "e \<in> F" "ebp < e" for e
  proof -
    have "unat e < 2 ^ 32" using unsigned_less [of e, where 'a = nat] by simp
    thus ?thesis using that by (intro less.hyps) (simp_all add: word_less_nat_alt)
  qed
  show ?case
  proof (cases "in_stack lo hi ebp")
    case False
    thus ?thesis using chain_out by blast
  next
    case True
    then obtain r where r: "read_u32 env m (ebp + 4) = Some r"
      "if HARD_CODE_SCHED2 r then \<exists>e \<in> F. read_u32 env m (ebp + 8) = Some e \<and> ebp < e
       else is_entry r \<or> (\<exists>e \<in> F. read_u32 env m ebp = Some e \<and> ebp < e)"
      using assms(1) less.prems unfolding ascending_def by blast
    consider (sched) e where "HARD_CODE_SCHED2 r" "e \<in> F" "read_u32 env m (ebp + 8) = Some e" "ebp < e"
      | (entry) "\<not> HARD_CODE_SCHED2 r" "is_entry r"
      | (up) e where "\<not> HARD_CODE_SCHED2 r" "\<not> is_entry r" "e \<in> F" "read_u32 env m ebp = Some e" "ebp < e"
      using r(2) by (auto split: if_splits)
    thus ?thesis
    proof cases
      case sched
      then obtain rs where "frame_chain env m lo hi e rs" using step by blast
      with chain_sched [OF True r(1)] sched show ?thesis by blast
    next
      case entry
      with chain_stop [OF True r(1)] show ?thesis by blast
    next
      case up
      then obtain rs where "frame_chain env m lo hi e rs" using step by blast
      with chain_next [OF True r(1)] up show ?thesis by blast
    qed
  qed
qed

text \<open>A frame that saves its own address.\<close>

definition self_frame :: "CPUX86State \<Rightarrow> ram \<Rightarrow> u32 \<Rightarrow> u32 \<Rightarrow> u32 \<Rightarrow> bool" where
  "self_frame env m lo hi ebp \<longleftrightarrow> in_stack lo hi ebp \<and> read_u32 env m ebp = Some ebp \<and>
     (\<exists>r. read_u32 env m (ebp + 4) = Some r \<and> \<not> HARD_CODE_SCHED2 r \<and> \<not> is_entry r)"

lemma callstack_loop_not_self:
  assumes "callstack_loop env m lo hi ebp ra str = Some y"
  shows "\<not> self_frame env m lo hi ebp"
proof (rule callstack_loop.raw_induct [OF _ assms, where P = "\<lambda>env m lo hi ebp ra str y. \<not> self_frame env m lo hi ebp"],
    goal_cases)
  case (1 loop env m lo hi ebp ra str y)
  show ?case
  proof
    assume "self_frame env m lo hi ebp"
    then obtain r where r: "in_stack lo hi ebp" "read_u32 env m ebp = Some ebp"
      "read_u32 env m (ebp + 4) = Some r" "\<not> HARD_CODE_SCHED2 r" "\<not> is_entry r"
      by (auto simp: self_frame_def)
    hence "\<not> (ebp < lo \<or> hi \<le> ebp + 4)" by (auto simp: in_stack_def)
    hence "loop env m lo hi ebp (Some r) (int_to_string r @ ''->'' @ str) = Some y"
      using 1(2) r by (simp add: is_entry_def read_var_ok read_over_ok)
    from 1(1) [OF this] show False using r by (auto simp: self_frame_def)
  qed
qed

lemma callstack_loop_cycle:
  "self_frame env m lo hi ebp \<Longrightarrow> callstack_loop env m lo hi ebp ra str = None"
  using callstack_loop_not_self by (cases "callstack_loop env m lo hi ebp ra str") blast+

section \<open>The recorded call stack\<close>

text \<open>Where the walk stops and what number the text carries, for the stack at \<open>lo\<close>.\<close>

definition stack_top :: "esp_map \<Rightarrow> u32 \<Rightarrow> u32 \<times> u32" where
  "stack_top ie lo =
     (case ie lo of
        Some (e # _) \<Rightarrow> if max_esp e \<noteq> 0 then (max_esp e, int_num e) else (lo + STACK_SIZE, - 1)
      | _ \<Rightarrow> (lo + STACK_SIZE, - 1))"

definition stack_base :: "CPUX86State \<Rightarrow> u32" where
  "stack_base env = regs env 4 AND 0xFFFFE000"

lemma get_reg_stack [simp]:
  "PEMU_get_reg env XED_REG_ESP = Some (regs env 4)" "PEMU_get_reg env XED_REG_EBP = Some (regs env 5)"
  by (simp_all add: PEMU_get_reg_def regmap0_def regmapping_length XED_REG_defs xed_regmapping_def arr_def
      CPU_NB_REGS_def R_defs nth_append)

lemma get_callstack_loop:
  assumes "esp_ok ie" "\<not> HARD_CODE_SCHED1 pc" "stack_top ie (stack_base env) = (hi, num)"
  shows "get_callstack_ebp env m ie pc =
    map_option (\<lambda>str. if num \<noteq> - 1 then ''I-'' @ dec_nat (unat num) @ '':'' @ str else str)
      (callstack_loop env m (stack_base env) hi (regs env 5) None (int_to_string pc))"
  using assms unfolding get_callstack_ebp_def stack_base_def stack_top_def esp_ok_def get_interrupt_new_def
  by (cases "callstack_loop env m (regs env 4 AND 0xFFFFE000) hi (regs env 5) None (int_to_string pc)")
    (auto split: option.splits list.splits if_splits)

lemma get_callstack_chain:
  assumes "esp_ok ie" "\<not> HARD_CODE_SCHED1 pc" "stack_top ie (stack_base env) = (hi, num)"
    "frame_chain env m (stack_base env) hi (regs env 5) rets"
  shows "get_callstack_ebp env m ie pc = Some (callstack_text num (rev rets) pc)"
  by (simp add: get_callstack_loop [OF assms(1-3)] callstack_loop_chain [OF assms(4)] callstack_text_def frames_text_def)

section \<open>Properties\<close>

text \<open>
  C20: On a kernel stack whose frames lie one above the other the walk ends, and its result
  is exactly the text of the chain of return addresses, outermost first, with the program
  counter last and the number of the innermost recorded interrupt in front.
\<close>

theorem callstack_returns:
  assumes "esp_ok ie" "\<not> HARD_CODE_SCHED1 pc" "stack_top ie (stack_base env) = (hi, num)"
    and "ascending env m (stack_base env) hi F" "regs env 5 \<in> F"
  shows "\<exists>rets. frame_chain env m (stack_base env) hi (regs env 5) rets \<and>
    get_callstack_ebp env m ie pc = Some (callstack_text num (rev rets) pc)"
  using ascending_chain [OF assms(4,5)] get_callstack_chain [OF assms(1-3)] by blast

text \<open>A stack of two frames, without paging.\<close>

definition word_ram :: "(u64 \<times> u32) list \<Rightarrow> ram" where
  "word_ram ws a =
     (case map_of ws (a AND NOT 3) of
        None \<Rightarrow> 0
      | Some v \<Rightarrow> ucast (drop_bit (8 * unat (a AND 3)) v))"

definition stack_env :: "u32 \<Rightarrow> u32 \<Rightarrow> CPUX86State" where
  "stack_env esp ebp = \<lparr>regs = (\<lambda>_. 0)(4 := esp, 5 := ebp), eip = 0, eflags = 0, cc_dst = 0, cc_src = 0,
     cc_src2 = 0, cc_op = CC_OP_DYNAMIC, df = 1, hflags = 0, segs = \<lambda>i. \<lparr>sg_selector = 0, sg_base = 0, sg_limit = - 1, sg_flags = 0\<rparr>,
     cr = \<lambda>_. 0, a20_mask = - 1\<rparr>"

definition two_frames :: ram where
  "two_frames = word_ram [(0xC0100F10, 0xC0100F40), (0xC0100F14, 0xC1000011),
     (0xC0100F40, 0xC0102000), (0xC0100F44, 0xC1000022)]"

theorem callstack_returns_witness:
  "\<exists>rets. frame_chain (stack_env 0xC0100F00 0xC0100F10) two_frames 0xC0100000 0xC0102000 0xC0100F10 rets \<and>
    get_callstack_ebp (stack_env 0xC0100F00 0xC0100F10) two_frames Map.empty 0xC1000033 =
      Some (callstack_text (- 1) (rev rets) 0xC1000033)"
proof -
  let ?env = "stack_env 0xC0100F00 0xC0100F10" and ?F = "{0xC0100F10, 0xC0100F40, 0xC0102000} :: u32 set"
  have base: "stack_base ?env = 0xC0100000" "regs ?env 5 = 0xC0100F10" by code_simp+
  have in_stk: "in_stack 0xC0100000 0xC0102000 0xC0100F10" "in_stack 0xC0100000 0xC0102000 0xC0100F40"
    "\<not> in_stack 0xC0100000 0xC0102000 0xC0102000" by code_simp+
  have rd: "read_u32 ?env two_frames 0xC0100F14 = Some 0xC1000011" "read_u32 ?env two_frames 0xC0100F10 = Some 0xC0100F40"
    "read_u32 ?env two_frames 0xC0100F44 = Some 0xC1000022" "read_u32 ?env two_frames 0xC0100F40 = Some 0xC0102000"
    by code_simp+
  have "stack_top Map.empty (stack_base ?env) = (0xC0102000, - 1)" by (simp add: stack_top_def base STACK_SIZE_def)
  moreover have "ascending ?env two_frames (stack_base ?env) 0xC0102000 ?F"
    unfolding ascending_def base by (simp add: in_stk rd config_defs)
  moreover have "\<not> HARD_CODE_SCHED1 0xC1000033" by (simp add: config_defs)
  ultimately show ?thesis
    using callstack_returns [OF esp_ok_empty, of "0xC1000033" ?env "0xC0102000" "- 1" two_frames ?F] by (simp add: base)
qed

text \<open>
  C38: The walk does not check that it makes progress: on a frame that saves its own address
  \<open>get_callstack_ebp\<close> never returns, and with it every hook that records a call stack.
\<close>

theorem callstack_hangs:
  assumes "esp_ok ie" "\<not> HARD_CODE_SCHED1 pc" "stack_top ie (stack_base env) = (hi, num)"
    and "self_frame env m (stack_base env) hi (regs env 5)"
  shows "get_callstack_ebp env m ie pc = None"
  by (simp add: get_callstack_loop [OF assms(1-3)] callstack_loop_cycle [OF assms(4)])

theorem callstack_hangs_witness:
  "get_callstack_ebp (stack_env 0xC0100F00 0xC0100F10) (word_ram [(0xC0100F10, 0xC0100F10)]) Map.empty 0xC1000033 = None"
proof -
  let ?env = "stack_env 0xC0100F00 0xC0100F10" and ?m = "word_ram [(0xC0100F10, 0xC0100F10)]"
  have base: "stack_base ?env = 0xC0100000" "regs ?env 5 = 0xC0100F10" by code_simp+
  have rd: "read_u32 ?env ?m 0xC0100F14 = Some 0" "read_u32 ?env ?m 0xC0100F10 = Some 0xC0100F10"
    "in_stack 0xC0100000 0xC0102000 0xC0100F10"
    by code_simp+
  have "self_frame ?env ?m (stack_base ?env) 0xC0102000 (regs ?env 5)"
    unfolding self_frame_def base by (simp add: rd config_defs is_entry_def)
  moreover have "stack_top Map.empty (stack_base ?env) = (0xC0102000, - 1)" by (simp add: stack_top_def base STACK_SIZE_def)
  ultimately show ?thesis using callstack_hangs [OF esp_ok_empty] by (simp add: config_defs)
qed

text \<open>
  C21: The recorded text determines the call stack: two walks that record the same text have the
  same return addresses, program counter and interrupt number. So types that are hashes of the text
  are confused only by the hash.
\<close>

theorem callstack_injective:
  assumes "esp_ok ie" "\<not> HARD_CODE_SCHED1 pc" "stack_top ie (stack_base env) = (hi, num)"
      "frame_chain env m (stack_base env) hi (regs env 5) rets"
    and "esp_ok ie'" "\<not> HARD_CODE_SCHED1 pc'" "stack_top ie' (stack_base env') = (hi', num')"
      "frame_chain env' m' (stack_base env') hi' (regs env' 5) rets'"
    and "get_callstack_ebp env m ie pc = get_callstack_ebp env' m' ie' pc'"
  shows "rets = rets' \<and> pc = pc' \<and> num = num'"
  using callstack_text_inj [of num "rev rets" pc num' "rev rets'" pc'] assms(9)
    get_callstack_chain [OF assms(1-4)] get_callstack_chain [OF assms(5-8)]
  by simp

theorem callstack_injective_witness:
  "get_callstack_ebp (stack_env 0xC0100F00 0) two_frames Map.empty 0xC1000033 \<noteq>
   get_callstack_ebp (stack_env 0xC0100F00 0) two_frames Map.empty 0xC1000034"
proof
  let ?env = "stack_env 0xC0100F00 0"
  assume eq: "get_callstack_ebp ?env two_frames Map.empty 0xC1000033 = get_callstack_ebp ?env two_frames Map.empty 0xC1000034"
  have base: "stack_base ?env = 0xC0100000" "regs ?env 5 = 0" by code_simp+
  have top: "stack_top Map.empty (stack_base ?env) = (0xC0102000, - 1)" by (simp add: stack_top_def base STACK_SIZE_def)
  have chain: "frame_chain ?env two_frames (stack_base ?env) 0xC0102000 (regs ?env 5) []"
    unfolding base by (rule chain_out) code_simp
  have "\<not> HARD_CODE_SCHED1 0xC1000033" "\<not> HARD_CODE_SCHED1 0xC1000034" by (simp_all add: config_defs)
  from callstack_injective [OF esp_ok_empty this(1) top chain esp_ok_empty this(2) top chain eq]
  show False by simp
qed

text \<open>
  C24: Whatever sequence of interrupt entries and returns has run on whatever kernel stacks, no
  empty stack is left behind, so looking up the innermost interrupt is never the top of an empty
  stack; and a properly nested sequence leaves the records as they were.
\<close>

theorem interrupt_stacks_safe:
  "(\<exists>e. get_interrupt_new k (fold esp_step ops Map.empty) = Some e) \<and>
   (nested ns \<longrightarrow> fold esp_step (ops @ ns) Map.empty = fold esp_step ops Map.empty)"
  using esp_ok_run [OF esp_ok_empty, of ops] by (simp add: esp_ok_get nested_restores)

theorem interrupt_stacks_safe_witness:
  "fold esp_step ([Enter 0xC0100000 0xC0100F00 32, Leave 0xC0100000]
     @ [Enter 0xC0100000 0xC0100E00 14, Leave 0xC0100000]) Map.empty = Map.empty"
proof -
  have "nested ([] @ [])" by (intro nested.intros)
  from nested_wrap [OF this, of "0xC0100000" "0xC0100E00" 14]
  have "nested [Enter 0xC0100000 0xC0100E00 14, Leave 0xC0100000]" by simp
  with interrupt_stacks_safe [of 0 "[Enter 0xC0100000 0xC0100F00 32, Leave 0xC0100000]"]
  show ?thesis by (auto simp: add_interrupt_esp_def delete_interrupt_esp_def)
qed

end
