(* ===== verification/ShadowMem.thy ===== *)
theory ShadowMem
  imports TracePrelude
begin

text \<open>
  The two-level shadow memory of \<open>shadow_mem.c\<close> (the same code is in \<open>taint2.c\<close>): a
  primary map of 65536 pointers to secondary maps of 65536 entries, all of them pointing
  to one distinguished map until the first write. It refines a flat memory with one entry
  per guest address. Secondary maps live in an explicit heap; a null or dangling pointer
  is \<open>None\<close>.
\<close>

section \<open>Data\<close>

type_synonym idx16 = "16 word"

definition UNTAINTED :: u32 where
  "UNTAINTED = 0"

definition TAINTED :: u32 where
  "TAINTED = 1"

definition PAGE_NUM :: nat where
  "PAGE_NUM = 2 ^ 16"

datatype smptr = DISTINGUISHED | Sm nat

type_synonym SecMap = "idx16 \<Rightarrow> u32"

record shadow =
  sm_heap :: "smptr \<Rightarrow> SecMap option"
  ii_primary_map :: "idx16 \<Rightarrow> smptr"
  shadow_bytes :: u32

text \<open>Before \<open>taintInit2\<close>: the static storage, all pointers null (no map at \<open>Sm 0\<close>).\<close>

definition shadow0 :: shadow where
  "shadow0 = \<lparr>sm_heap = [DISTINGUISHED \<mapsto> (\<lambda>_. 0)], ii_primary_map = (\<lambda>_. Sm 0), shadow_bytes = 0\<rparr>"

definition page_of :: "u32 \<Rightarrow> idx16" where
  "page_of a = ucast (drop_bit 16 a)"

definition off_of :: "u32 \<Rightarrow> idx16" where
  "off_of a = ucast (a AND 0xFFFF)"

section \<open>Operations\<close>

definition init_shadow_memory :: "shadow \<Rightarrow> shadow" where
  "init_shadow_memory s = s\<lparr>sm_heap := (sm_heap s)(DISTINGUISHED \<mapsto> (\<lambda>_. UNTAINTED)),
                            ii_primary_map := (\<lambda>_. DISTINGUISHED)\<rparr>"

text \<open>Freeing a map twice, or one that was never allocated, is \<open>None\<close>.\<close>

fun free_pages :: "idx16 list \<Rightarrow> shadow \<Rightarrow> shadow option" where
  "free_pages [] s = Some s"
| "free_pages (i # is) s =
     (if ii_primary_map s i \<noteq> DISTINGUISHED
      then (if sm_heap s (ii_primary_map s i) = None then None
            else free_pages is (s\<lparr>sm_heap := (sm_heap s)(ii_primary_map s i := None)\<rparr>))
      else free_pages is s)"

definition free_shadow_memory :: "shadow \<Rightarrow> shadow option" where
  "free_shadow_memory s = free_pages (map of_nat [0..<PAGE_NUM]) s"

text \<open>
  \<open>mal\<close> is what \<open>malloc\<close> returns, \<open>None\<close> for a null pointer, which the code does not
  check: the initialisation of the map then writes through it.
\<close>

definition alloc_secondary_map :: "(shadow \<Rightarrow> nat option) \<Rightarrow> shadow \<Rightarrow> (smptr \<times> shadow) option" where
  "alloc_secondary_map mal s = (case mal s of
     None \<Rightarrow> None
   | Some x \<Rightarrow> Some (Sm x, s\<lparr>sm_heap := (sm_heap s)(Sm x \<mapsto> (\<lambda>_. UNTAINTED)),
                             shadow_bytes := shadow_bytes s + 2 ^ 18\<rparr>))"

definition get_mem_taint2 :: "u32 \<Rightarrow> shadow \<Rightarrow> u32 option" where
  "get_mem_taint2 a s = do {
     sm \<leftarrow> sm_heap s (ii_primary_map s (page_of a));
     Some (sm (off_of a)) }"

definition ensure_mappable :: "(shadow \<Rightarrow> nat option) \<Rightarrow> u32 \<Rightarrow> shadow \<Rightarrow> shadow option" where
  "ensure_mappable mal a s =
     (if ii_primary_map s (page_of a) = DISTINGUISHED
      then do { (p, s) \<leftarrow> alloc_secondary_map mal s;
                Some (s\<lparr>ii_primary_map := (ii_primary_map s)(page_of a := p)\<rparr>) }
      else Some s)"

definition set_mem_taint2 :: "(shadow \<Rightarrow> nat option) \<Rightarrow> u32 \<Rightarrow> u32 \<Rightarrow> shadow \<Rightarrow> shadow option" where
  "set_mem_taint2 mal a bytes s = do {
     s \<leftarrow> ensure_mappable mal a s;
     sm \<leftarrow> sm_heap s (ii_primary_map s (page_of a));
     Some (s\<lparr>sm_heap := (sm_heap s)(ii_primary_map s (page_of a) \<mapsto> sm(off_of a := bytes))\<rparr>) }"

function bysize_loop :: "(shadow \<Rightarrow> nat option) \<Rightarrow> u32 \<Rightarrow> u32 \<Rightarrow> u32 \<Rightarrow> u32 \<Rightarrow> shadow \<Rightarrow> shadow option" where
  "bysize_loop mal a bytes sz i s =
     (if i < sz then do { s \<leftarrow> set_mem_taint2 mal (a + i) bytes s; bysize_loop mal a bytes sz (i + 1) s }
      else Some s)"
  by pat_completeness auto
termination
  by (relation "measure (\<lambda>(mal, a, bytes, sz, i, s). unat (sz - i))")
    (simp_all add: word_loop_dec)

definition set_mem_taint_bysize2 :: "(shadow \<Rightarrow> nat option) \<Rightarrow> u32 \<Rightarrow> u32 \<Rightarrow> u32 \<Rightarrow> shadow \<Rightarrow> shadow option" where
  "set_mem_taint_bysize2 mal a bytes sz s = bysize_loop mal a bytes sz 0 s"

definition taintInit2 :: "shadow \<Rightarrow> shadow" where
  "taintInit2 s = init_shadow_memory s"

declare bysize_loop.simps [simp del]

section \<open>Addresses\<close>

lemma off_of_take_bit: "off_of a = ucast (take_bit 16 a)"
proof -
  have "(0xFFFF :: u32) = mask 16" by (simp add: mask_eq_exp_minus_1)
  then show ?thesis by (simp add: off_of_def take_bit_eq_mask)
qed

lemma page_off_inj: "page_of a = page_of b \<Longrightarrow> off_of a = off_of b \<Longrightarrow> a = b"
proof (rule bit_eqI)
  fix n assume p: "page_of a = page_of b" and o: "off_of a = off_of b" 
   and n: "possible_bit TYPE(u32) n"
  show "bit a n = bit b n"
  proof (cases "n < 16")
    case True
    have "bit (off_of a) n = bit (off_of b) n" using o by simp
    then show ?thesis using True by (simp add: off_of_take_bit bit_simps)
  next
    case False
    have "bit (page_of a) (n - 16) = bit (page_of b) (n - 16)" using p by simp
    moreover have "n - 16 < 16" using False n by simp
    ultimately show ?thesis using False by (simp add: page_of_def bit_simps)
  qed
qed
section \<open>Invariant and abstraction\<close>

text \<open>
  Every primary entry points to a live map, no two entries share one (the distinguished
  map apart), the distinguished map is never written, nothing leaks, and the counter is
  the size of the allocated maps (modulo \<open>2 ^ 32\<close>).
\<close>

definition shadow_ok :: "shadow \<Rightarrow> bool" where
  "shadow_ok s \<longleftrightarrow> sm_heap s DISTINGUISHED = Some (\<lambda>_. UNTAINTED) \<and>
     (\<forall>i. sm_heap s (ii_primary_map s i) \<noteq> None) \<and>
     (\<forall>i j. ii_primary_map s i = ii_primary_map s j \<longrightarrow> ii_primary_map s i \<noteq> DISTINGUISHED \<longrightarrow> i = j) \<and>
     dom (sm_heap s) = insert DISTINGUISHED (range (ii_primary_map s)) \<and>
     shadow_bytes s = of_nat (card (range (ii_primary_map s) - {DISTINGUISHED}) * 2 ^ 18)"

definition flat :: "shadow \<Rightarrow> u32 \<Rightarrow> u32" where
  "flat s a = (case get_mem_taint2 a s of Some v \<Rightarrow> v | None \<Rightarrow> 0)"

definition sm_malloc_ok :: "(shadow \<Rightarrow> nat option) \<Rightarrow> bool" where
  "sm_malloc_ok mal \<longleftrightarrow> (\<forall>s x. mal s = Some x \<longrightarrow> sm_heap s (Sm x) = None)"

text \<open>An allocator that finds room whenever only finitely many maps are in use.\<close>

definition sm_malloc_total :: "(shadow \<Rightarrow> nat option) \<Rightarrow> bool" where
  "sm_malloc_total mal \<longleftrightarrow> (\<forall>s. finite (dom (sm_heap s)) \<longrightarrow> mal s \<noteq> None)"

lemma shadow_live: "shadow_ok s \<Longrightarrow> \<exists>m. sm_heap s (ii_primary_map s i) = Some m"
  by (auto simp: shadow_ok_def)

lemma get_flat: "shadow_ok s \<Longrightarrow> get_mem_taint2 a s = Some (flat s a)"
  using shadow_live [of s "page_of a"] by (auto simp: flat_def get_mem_taint2_def)

lemma init_ok:
  assumes "sm_heap s = [DISTINGUISHED \<mapsto> m]" "shadow_bytes s = 0"
  shows "shadow_ok (init_shadow_memory s)" "flat (init_shadow_memory s) = (\<lambda>_. UNTAINTED)"
  using assms
  by (auto simp: shadow_ok_def init_shadow_memory_def flat_def get_mem_taint2_def image_constant_conv)

lemma range_upd: "range (f(i := x)) = insert x (f ` (UNIV - {i}))" for f :: "'a \<Rightarrow> 'b"
  by auto

lemma alloc_page_ok:
  assumes s: "shadow_ok s" and x: "sm_heap s (Sm x) = None" and pg: "ii_primary_map s i = DISTINGUISHED"
    and s': "s' = s\<lparr>sm_heap := (sm_heap s)(Sm x \<mapsto> (\<lambda>_. UNTAINTED)), shadow_bytes := shadow_bytes s + 2 ^ 18,
                    ii_primary_map := (ii_primary_map s)(i := Sm x)\<rparr>"
  shows "shadow_ok s'" "flat s' = flat s"
proof -
  let ?f = "ii_primary_map s"
  have nx: "Sm x \<notin> range ?f" using shadow_live [OF s] x by (metis option.distinct(1) rangeE)
  have r: "range ?f = insert DISTINGUISHED (?f ` (UNIV - {i}))" using pg rangeI [of ?f i] by auto
  have r': "range (?f(i := Sm x)) = insert (Sm x) (?f ` (UNIV - {i}))" by (rule range_upd)
  have fin: "finite (range ?f - {DISTINGUISHED})" by simp
  have "range (?f(i := Sm x)) - {DISTINGUISHED} = insert (Sm x) (range ?f - {DISTINGUISHED})"
    unfolding r r' by auto
  then have card: "card (range (?f(i := Sm x)) - {DISTINGUISHED}) = Suc (card (range ?f - {DISTINGUISHED}))"
    using nx fin by (simp add: card_insert_if)
  have dm: "dom (sm_heap s') = insert DISTINGUISHED (range (?f(i := Sm x)))"
    using s unfolding s' shadow_ok_def r' r by auto
  have bytes: "shadow_bytes s' = of_nat (card (range (?f(i := Sm x)) - {DISTINGUISHED}) * 2 ^ 18)"
    using s unfolding card mult_Suc of_nat_add s' shadow_ok_def by simp
  have live: "sm_heap s' ((?f(i := Sm x)) j) \<noteq> None" for j using s unfolding s' shadow_ok_def by simp
  have f: "ii_primary_map s' = ?f(i := Sm x)" and d: "sm_heap s' DISTINGUISHED = sm_heap s DISTINGUISHED"
    unfolding s' by simp_all
  have inj: "a = b" if "(?f(i := Sm x)) a = (?f(i := Sm x)) b" "(?f(i := Sm x)) a \<noteq> DISTINGUISHED" for a b
  proof -
    have "?f a \<noteq> Sm x" "?f b \<noteq> Sm x" using nx by (metis rangeI)+
    with that show ?thesis using s unfolding shadow_ok_def by (auto split: if_splits)
  qed
  have "sm_heap s' DISTINGUISHED = Some (\<lambda>_. UNTAINTED)" using s by (simp add: d shadow_ok_def)
  then show "shadow_ok s'"
    unfolding shadow_ok_def f by (intro conjI allI impI) (assumption, rule live, erule inj, assumption, rule dm, rule bytes)
  show "flat s' = flat s"
  proof
    fix a
    show "flat s' a = flat s a"
    proof (cases "page_of a = i")
      case True
      then show ?thesis using s pg unfolding flat_def get_mem_taint2_def f by (simp add: s' shadow_ok_def)
    next
      case False
      then have "?f (page_of a) \<noteq> Sm x" using nx by (metis rangeI)
      with False show ?thesis unfolding flat_def get_mem_taint2_def f by (simp add: s')
    qed
  qed
qed

lemma ensure_mappable_ok:
  assumes s: "shadow_ok s" and mal: "sm_malloc_ok mal"
  shows "ensure_mappable mal a s = None \<and> mal s = None \<or>
    (\<exists>s'. ensure_mappable mal a s = Some s' \<and> shadow_ok s' \<and> flat s' = flat s \<and>
       ii_primary_map s' (page_of a) \<noteq> DISTINGUISHED)"
proof (cases "ii_primary_map s (page_of a) = DISTINGUISHED")
  case True
  show ?thesis
  proof (cases "mal s")
    case (Some x)
    then have "sm_heap s (Sm x) = None" using mal by (simp add: sm_malloc_ok_def)
    from alloc_page_ok [OF s this True refl] show ?thesis
      using True Some by (auto simp: ensure_mappable_def alloc_secondary_map_def)
  qed (use True in \<open>simp add: ensure_mappable_def alloc_secondary_map_def\<close>)
qed (use s in \<open>simp add: ensure_mappable_def\<close>)

lemma write_page_ok:
  assumes s: "shadow_ok s" and pg: "ii_primary_map s (page_of a) \<noteq> DISTINGUISHED"
    and sm: "sm_heap s (ii_primary_map s (page_of a)) = Some sm"
    and s': "s' = s\<lparr>sm_heap := (sm_heap s)(ii_primary_map s (page_of a) \<mapsto> sm(off_of a := v))\<rparr>"
  shows "shadow_ok s'" "flat s' = (flat s)(a := v)"
proof -
  have "dom (sm_heap s') = dom (sm_heap s)" using sm by (auto simp: s')
  then show "shadow_ok s'" using s pg by (auto simp: shadow_ok_def s')
  show "flat s' = (flat s)(a := v)"
  proof
    fix b
    have inj: "ii_primary_map s (page_of b) = ii_primary_map s (page_of a) \<longleftrightarrow> page_of b = page_of a"
      using s pg by (auto simp: shadow_ok_def)
    show "flat s' b = ((flat s)(a := v)) b"
      using page_off_inj [of b a] sm by (auto simp: flat_def get_mem_taint2_def s' inj)
  qed
qed

lemma set_mem_taint2_ok:
  assumes "shadow_ok s" "sm_malloc_ok mal"
  shows "set_mem_taint2 mal a v s = None \<and> mal s = None \<or>
    (\<exists>s'. set_mem_taint2 mal a v s = Some s' \<and> shadow_ok s' \<and> flat s' = (flat s)(a := v))"
proof (cases "ensure_mappable mal a s")
  case None
  then show ?thesis using ensure_mappable_ok [OF assms, of a] by (simp add: set_mem_taint2_def)
next
  case (Some s1)
  then have s1: "shadow_ok s1" "flat s1 = flat s" "ii_primary_map s1 (page_of a) \<noteq> DISTINGUISHED"
    using ensure_mappable_ok [OF assms, of a] by auto
  then obtain sm where "sm_heap s1 (ii_primary_map s1 (page_of a)) = Some sm"
    by (auto simp: shadow_ok_def)
  then show ?thesis using write_page_ok [OF s1(1,3) _ refl] s1(2) Some by (simp add: set_mem_taint2_def)
qed

lemma shadow_finite: "shadow_ok s \<Longrightarrow> finite (dom (sm_heap s))"
  by (simp add: shadow_ok_def)

text \<open>The loop returns, and writes the range, which may wrap around the address space.\<close>

lemma bysize_loop_ok:
  assumes "shadow_ok s" "sm_malloc_ok mal" "sm_malloc_total mal"
  shows "\<exists>s'. bysize_loop mal a v n i s = Some s' \<and> shadow_ok s' \<and>
    flat s' = (\<lambda>b. if i \<le> b - a \<and> b - a < n then v else flat s b)"
  using assms
proof (induction mal a v n i s rule: bysize_loop.induct)
  case (1 mal a v n i s)
  show ?case
  proof (cases "i < n")
    case True
    have "mal s \<noteq> None" using 1(2,4) shadow_finite by (auto simp: sm_malloc_total_def)
    then obtain s1 where s1: "set_mem_taint2 mal (a + i) v s = Some s1" "shadow_ok s1" "flat s1 = (flat s)(a + i := v)"
      using set_mem_taint2_ok [OF 1(2,3), of "a + i" v] by auto
    from 1(1) [OF True s1(1,2) 1(3,4)] obtain s2 where s2: "bysize_loop mal a v n (i + 1) s1 = Some s2" "shadow_ok s2"
      "flat s2 = (\<lambda>b. if i + 1 \<le> b - a \<and> b - a < n then v else flat s1 b)" by blast
    have "i \<le> b - a \<longleftrightarrow> b = a + i \<or> i + 1 \<le> b - a" if "b - a < n" for b
    proof -
      have "i \<le> b - a \<longleftrightarrow> b - a = i \<or> i + 1 \<le> b - a"
        using word_inc_loop [OF True] by (auto simp: word_le_nat_alt word_unat_eq_iff)
      then show ?thesis by (auto simp: diff_eq_eq add.commute)
    qed
    then show ?thesis
      using True s1 s2 by (subst bysize_loop.simps) (auto simp: fun_eq_iff)
  next
    case False
    then have "\<not> (i \<le> b - a \<and> b - a < n)" for b by auto
    then show ?thesis using False 1(2) by (subst bysize_loop.simps) (auto simp: fun_eq_iff)
  qed
qed

section \<open>Release\<close>

lemma free_pages_ok:
  assumes "distinct is" "\<And>i. i \<in> set is \<Longrightarrow> sm_heap s (ii_primary_map s i) \<noteq> None"
    and inj: "\<And>i j. ii_primary_map s i = ii_primary_map s j \<Longrightarrow> ii_primary_map s i \<noteq> DISTINGUISHED \<Longrightarrow> i = j"
  shows "\<exists>s'. free_pages is s = Some s' \<and> dom (sm_heap s') = dom (sm_heap s) - (ii_primary_map s ` set is - {DISTINGUISHED})"
  using assms
proof (induction "is" arbitrary: s)
  case (Cons i "is")
  show ?case
  proof (cases "ii_primary_map s i = DISTINGUISHED")
    case True
    with Cons.IH [of s] Cons.prems show ?thesis by (simp add: insert_Diff_if)
  next
    case False
    let ?s = "s\<lparr>sm_heap := (sm_heap s)(ii_primary_map s i := None)\<rparr>"
    have live: "sm_heap ?s (ii_primary_map ?s j) \<noteq> None" if "j \<in> set is" for j
      using that Cons.prems(1,2) Cons.prems(3) [of j i] False by auto
    have "\<exists>s'. free_pages is ?s = Some s' \<and> dom (sm_heap s') = dom (sm_heap ?s) - (ii_primary_map ?s ` set is - {DISTINGUISHED})"
      by (rule Cons.IH) (use Cons.prems live in auto)
    moreover have "dom (sm_heap ?s) = dom (sm_heap s) - {ii_primary_map s i}" by auto
    ultimately obtain s' where "free_pages is ?s = Some s'"
      "dom (sm_heap s') = dom (sm_heap s) - {ii_primary_map s i} - (ii_primary_map s ` set is - {DISTINGUISHED})" by auto
    then show ?thesis using False Cons.prems(2) [of i] by auto
  qed
qed simp

lemma PAGE_NUM_length: "PAGE_NUM = 2 ^ LENGTH(16)"
  by (simp add: PAGE_NUM_def)

section \<open>The interface\<close>

text \<open>A memory of one value per address, as the users of the shadow memory see it.\<close>

locale taint_memory =
  fixes inv :: "'s \<Rightarrow> bool" and oka :: "'m \<Rightarrow> bool" and get :: "u32 \<Rightarrow> 's \<Rightarrow> u32 option"
    and put :: "'m \<Rightarrow> u32 \<Rightarrow> u32 \<Rightarrow> 's \<Rightarrow> 's option"
  assumes get_total: "inv s \<Longrightarrow> \<exists>v. get a s = Some v"
    and put_total: "inv s \<Longrightarrow> oka m \<Longrightarrow> \<exists>s'. put m a v s = Some s' \<and> inv s'"
    and get_put: "inv s \<Longrightarrow> oka m \<Longrightarrow> put m a v s = Some s' \<Longrightarrow> get b s' = (if b = a then Some v else get b s)"
begin

text \<open>Writing a list of cells one after the other: the last write to an address counts.\<close>

fun puts :: "'m \<Rightarrow> (u32 \<times> u32) list \<Rightarrow> 's \<Rightarrow> 's option" where
  "puts m [] s = Some s"
| "puts m ((a, v) # avs) s = Option.bind (put m a v s) (puts m avs)"

lemma puts_get:
  assumes "inv s" "oka m"
  shows "\<exists>s'. puts m avs s = Some s' \<and> inv s' \<and>
    (\<forall>b. get b s' = (case map_of (rev avs) b of Some v \<Rightarrow> Some v | None \<Rightarrow> get b s))"
  using assms(1)
proof (induction avs arbitrary: s)
  case (Cons av avs)
  obtain a v where av: "av = (a, v)" by (cases av)
  obtain s1 where s1: "put m a v s = Some s1" "inv s1" using put_total [OF Cons.prems assms(2)] by blast
  obtain s2 where s2: "puts m avs s1 = Some s2" "inv s2"
    "\<forall>b. get b s2 = (case map_of (rev avs) b of Some v \<Rightarrow> Some v | None \<Rightarrow> get b s1)"
    using Cons.IH [OF s1(2)] by blast
  have "get b s2 = (case map_of (rev (av # avs)) b of Some v \<Rightarrow> Some v | None \<Rightarrow> get b s)" for b
    using s2(3) [rule_format, of b] get_put [OF Cons.prems assms(2) s1(1), of b]
    by (auto simp: av map_add_def split: option.split)
  with s1 s2 show ?case by (auto simp: av)
qed simp

lemma put_swap:
  assumes "inv s" "oka m" "a \<noteq> b" "put m a v s = Some s1" "put m b w s1 = Some s2"
    "put m b w s = Some t1" "put m a v t1 = Some t2" "inv s1" "inv t1"
  shows "get c s2 = get c t2"
  using assms get_put [OF assms(1,2,4)] get_put [OF assms(8,2,5)] get_put [OF assms(1,2,6)] get_put [OF assms(9,2,7)]
  by auto

end

interpretation shm: taint_memory shadow_ok "\<lambda>m. sm_malloc_ok m \<and> sm_malloc_total m" get_mem_taint2 set_mem_taint2
proof unfold_locales
  fix s m a v s' b
  assume s: "shadow_ok s"
  show "\<exists>v. get_mem_taint2 a s = Some v" using get_flat [OF s] by blast
  assume m: "sm_malloc_ok m \<and> sm_malloc_total m"
  have "mal s \<noteq> None" if "mal = m" for mal using m that shadow_finite [OF s] by (auto simp: sm_malloc_total_def)
  then obtain s1 where s1: "set_mem_taint2 m a v s = Some s1" "shadow_ok s1" "flat s1 = (flat s)(a := v)"
    using set_mem_taint2_ok [OF s, of m a v] m by auto
  then show "\<exists>s'. set_mem_taint2 m a v s = Some s' \<and> shadow_ok s'" by blast
  assume "set_mem_taint2 m a v s = Some s'"
  then show "get_mem_taint2 b s' = (if b = a then Some v else get_mem_taint2 b s)"
    using s1 get_flat [OF s] get_flat [OF s1(2)] by simp
qed

section \<open>Properties\<close>

definition sm_first_free :: "shadow \<Rightarrow> nat option" where
  "sm_first_free s = (if \<exists>x. sm_heap s (Sm x) = None then Some (LEAST x. sm_heap s (Sm x) = None) else None)"

lemma sm_first_free_ok: "sm_malloc_ok sm_first_free"
  unfolding sm_malloc_ok_def sm_first_free_def by (auto intro: LeastI_ex)

lemma sm_first_free_total: "sm_malloc_total sm_first_free"
proof -
  have "\<exists>x. sm_heap s (Sm x) = None" if "finite (dom (sm_heap s))" for s
  proof (rule ccontr)
    assume "\<nexists>x. sm_heap s (Sm x) = None"
    then have "range Sm \<subseteq> dom (sm_heap s)" by auto
    moreover have "infinite (range Sm)" using finite_imageD [of Sm UNIV] by (auto simp: inj_def)
    ultimately show False using that finite_subset by blast
  qed
  then show ?thesis unfolding sm_malloc_total_def sm_first_free_def by (metis option.distinct(1))
qed

text \<open>
  \<open>taintInit2\<close> on the program's static storage establishes the shadow memory: every
  address reads \<open>UNTAINTED\<close>, through the one distinguished map, with nothing allocated.
\<close>

theorem shadow_init: "shadow_ok (taintInit2 shadow0) \<and> (\<forall>a. get_mem_taint2 a (taintInit2 shadow0) = Some UNTAINTED)"
  using init_ok [of shadow0] get_flat [of "init_shadow_memory shadow0"] by (simp add: taintInit2_def shadow0_def)

lemma init_shadow_ok: "shadow_ok (init_shadow_memory shadow0)"
  using init_ok(1) [of shadow0] by (simp add: shadow0_def)

text \<open>
  C14: the two-level map refines a flat memory. A write of \<open>set_mem_taint2\<close> succeeds, keeps
  the representation invariant (live, unshared secondary maps, an untouched distinguished
  map, no leak, an exact allocation counter) and changes exactly the one address.
\<close>

theorem shadow_write_refines:
  assumes "shadow_ok s" "sm_malloc_ok mal" "sm_malloc_total mal"
  shows "\<exists>s'. set_mem_taint2 mal a v s = Some s' \<and> shadow_ok s' \<and> flat s' = (flat s)(a := v)"
proof -
  have "mal s \<noteq> None" using assms(1,3) shadow_finite by (auto simp: sm_malloc_total_def)
  then show ?thesis using set_mem_taint2_ok [OF assms(1,2), of a v] by auto
qed

theorem shadow_write_refines_witness:
  "\<exists>s'. set_mem_taint2 sm_first_free 0xC0001234 TAINTED (init_shadow_memory shadow0) = Some s' \<and> shadow_ok s' \<and>
     flat s' 0xC0001234 = TAINTED \<and> flat s' 0xC0001235 = flat (init_shadow_memory shadow0) 0xC0001235"
  using shadow_write_refines [OF init_shadow_ok sm_first_free_ok sm_first_free_total, of "0xC0001234" TAINTED]
  by auto

text \<open>
  C25: \<open>set_mem_taint_bysize2\<close> returns for every size and sets exactly the addresses
  \<open>a, a + 1, ..., a + size - 1\<close>, counted modulo \<open>2 ^ 32\<close>, so a range that passes the end
  of the address space continues at 0.
\<close>

theorem shadow_range_write:
  assumes "shadow_ok s" "sm_malloc_ok mal" "sm_malloc_total mal"
  shows "\<exists>s'. set_mem_taint_bysize2 mal a v sz s = Some s' \<and> shadow_ok s' \<and>
    (\<forall>b. flat s' b = (if b - a < sz then v else flat s b))"
  using bysize_loop_ok [OF assms, of a v sz 0] by (auto simp: set_mem_taint_bysize2_def)

theorem shadow_range_write_witness:
  "\<exists>s'. set_mem_taint_bysize2 sm_first_free 0xFFFFFFFE TAINTED 4 (init_shadow_memory shadow0) = Some s' \<and>
     flat s' 0xFFFFFFFF = TAINTED \<and> flat s' 1 = TAINTED \<and> flat s' 2 = UNTAINTED"
  using shadow_range_write [OF init_shadow_ok sm_first_free_ok sm_first_free_total, of "0xFFFFFFFE" TAINTED 4]
    init_ok(2) [of shadow0] by (auto simp: shadow0_def)

text \<open>
  C34: \<open>free_shadow_memory\<close> frees every allocated secondary map exactly once, and only the
  static distinguished map remains.
\<close>

theorem shadow_free_all:
  assumes "shadow_ok s"
  shows "\<exists>s'. free_shadow_memory s = Some s' \<and> dom (sm_heap s') = {DISTINGUISHED}"
proof -
  have "\<exists>s'. free_pages (map of_nat [0..<PAGE_NUM]) s = Some s' \<and>
    dom (sm_heap s') = dom (sm_heap s) - (ii_primary_map s ` set (map of_nat [0..<PAGE_NUM]) - {DISTINGUISHED})"
    by (rule free_pages_ok) (use assms all_words(2) [where 'a = 16] PAGE_NUM_length in \<open>auto simp: shadow_ok_def\<close>)
  moreover have "set (map of_nat [0..<PAGE_NUM]) = (UNIV :: idx16 set)"
    using all_words(1) [where 'a = 16] by (simp only: PAGE_NUM_length)
  ultimately show ?thesis using assms unfolding free_shadow_memory_def shadow_ok_def by auto
qed

theorem shadow_free_all_witness:
  "\<exists>s'. free_shadow_memory (init_shadow_memory shadow0) = Some s' \<and> dom (sm_heap s') = {DISTINGUISHED}"
  by (rule shadow_free_all [OF init_shadow_ok])



end
