(* ===== verification/LibMap.thy ===== *)
theory LibMap
  imports Callstack ShadowMem RbTree
begin

text \<open>
  The data base of the tracer, \<open>lib_map.cpp\<close>: pending allocations, object instances with the
  accesses seen, types with the call stack that creates them, call stacks by hash, and the relations
  between types. \<open>std::map\<close>, which is iterated in key order, is a sorted association list;
  the other containers are maps and sets. The files are the rows written to them. The hash of
  strings is the argument \<open>hash_fn\<close>. \<open>None\<close> is a failed \<open>assert\<close>, a process exit or
  undefined behaviour.
\<close>

section \<open>Ordered maps\<close>

type_synonym ('k, 'v) omap = "('k \<times> 'v) list"

fun omap_put :: "'k::linorder \<Rightarrow> 'v \<Rightarrow> ('k, 'v) omap \<Rightarrow> ('k, 'v) omap" where
  "omap_put k v [] = [(k, v)]"
| "omap_put k v ((k', v') # xs) =
     (if k < k' then (k, v) # (k', v') # xs
      else if k = k' then (k, v) # xs
      else (k', v') # omap_put k v xs)"

definition omap_ok :: "('k::linorder, 'v) omap \<Rightarrow> bool" where
  "omap_ok xs \<longleftrightarrow> sorted_wrt (<) (map fst xs)"

lemma omap_put_keys: "set (map fst (omap_put k v xs)) = insert k (set (map fst xs))"
  by (induction k v xs rule: omap_put.induct) auto

lemma omap_put_ok: "omap_ok xs \<Longrightarrow> omap_ok (omap_put k v xs)"
proof (induction k v xs rule: omap_put.induct)
  case (2 k v k' v' xs)
  thus ?case using omap_put_keys [of k v xs] by (auto simp: omap_ok_def)
qed (simp add: omap_ok_def)

lemma omap_put_get: "omap_ok xs \<Longrightarrow> map_of (omap_put k v xs) = (map_of xs)(k \<mapsto> v)"
proof (induction k v xs rule: omap_put.induct)
  case (2 k v k' v' xs)
  thus ?case by (auto simp: omap_ok_def fun_eq_iff)
qed simp

section \<open>Data\<close>

record Elem1 =
  e_name :: string
  e_size :: u32
  e_addr :: u32

record Instance =
  inst_type :: size_t
  inst_pset :: "string set option"

record DataIntem =
  di_pc :: u32
  di_size :: u32
  di_name :: string
  di_callstack :: string
  di_types :: "(u32, string set) omap"
  di_pset :: "string set"

record Args =
  arg_size :: nat
  arg_type :: string

record Func =
  fn_name :: string
  fn_args :: "Args list"

record libmap =
  g_obj :: "u32 \<rightharpoonup> Elem1"
  g_all_obj :: "u32 \<rightharpoonup> int"
  g_instances :: "u32 \<rightharpoonup> Instance"
  g_access_callstack :: "size_t \<rightharpoonup> string"
  g_delete_callstack :: "size_t \<rightharpoonup> string"
  g_interrupt_esp :: esp_map
  database :: "(size_t, DataIntem) omap"
  sys_create :: "int \<Rightarrow> size_t set"
  g_dest :: "u32 set"
  g_point_to :: "u32 \<Rightarrow> string set"
  g_traverse :: "size_t \<Rightarrow> string set"
  syscall_call_funcs :: "u32 \<Rightarrow> int"
  call_relation :: "(u32, u32 set) omap"
  g_func_interface :: "u32 \<rightharpoonup> Func"
  proc_addr :: "u32 \<Rightarrow> u32"
  output_database :: "(string \<times> size_t \<times> u32 \<times> string \<times> u32) list"
  output_file1 :: "(size_t \<times> string set) list"
  output_file2 :: "(size_t \<times> string) list"
  output_file3 :: "(size_t \<times> string) list"
  output_file4 :: "(size_t \<times> string) list"

definition libmap0 :: libmap where
  "libmap0 = \<lparr>g_obj = Map.empty, g_all_obj = Map.empty, g_instances = Map.empty, g_access_callstack = Map.empty,
     g_delete_callstack = Map.empty, g_interrupt_esp = Map.empty, database = [], sys_create = \<lambda>_. {},
     g_dest = {}, g_point_to = \<lambda>_. {}, g_traverse = \<lambda>_. {}, syscall_call_funcs = \<lambda>_. 0, call_relation = [],
     g_func_interface = Map.empty, proc_addr = \<lambda>_. 0, output_database = [], output_file1 = [],
     output_file2 = [], output_file3 = [], output_file4 = []\<rparr>"

text \<open>The guest as the hooks see it: its CPU, its memory and the hash of strings.\<close>

record guest =
  cpu :: CPUX86State
  mem :: ram
  hash_fn :: "string \<Rightarrow> size_t"

definition callstack_of :: "guest \<Rightarrow> libmap \<Rightarrow> u32 \<Rightarrow> string option" where
  "callstack_of G L pc = get_callstack_ebp (cpu G) (mem G) (g_interrupt_esp L) pc"

definition hash_callstack :: "guest \<Rightarrow> libmap \<Rightarrow> u32 \<Rightarrow> size_t option" where
  "hash_callstack G L pc = map_option (hash_fn G) (callstack_of G L pc)"

definition get_cur_callstack_str :: "guest \<Rightarrow> libmap \<Rightarrow> u32 \<Rightarrow> string option" where
  "get_cur_callstack_str G L pc = callstack_of G L pc"

section \<open>Pending allocations\<close>

text \<open>
  Looking an element up with the index operator creates it when it is absent: an empty name
  and indeterminate numbers, which are not used here (\<open>None\<close>).
\<close>

definition insert_obj :: "u32 \<Rightarrow> u32 \<Rightarrow> u32 \<Rightarrow> string \<Rightarrow> libmap \<Rightarrow> libmap" where
  "insert_obj pc addr sz name L = L\<lparr>g_obj := (g_obj L)(pc \<mapsto> \<lparr>e_name = name, e_size = sz, e_addr = addr\<rparr>)\<rparr>"

definition get_obj :: "u32 \<Rightarrow> libmap \<Rightarrow> nat" where
  "get_obj pc L = (if g_obj L pc = None then 0 else 1)"

text \<open>\<open>strcpy\<close> into a buffer of \<open>n\<close> bytes.\<close>

definition strcpy_into :: "nat \<Rightarrow> string \<Rightarrow> string option" where
  "strcpy_into n s = (if length s < n then Some s else None)"

definition get_name :: "u32 \<Rightarrow> nat \<Rightarrow> libmap \<Rightarrow> string option" where
  "get_name pc bufsize L = do { e \<leftarrow> g_obj L pc; strcpy_into bufsize (e_name e) }"

definition get_size :: "u32 \<Rightarrow> libmap \<Rightarrow> u32 option" where
  "get_size pc L = map_option e_size (g_obj L pc)"

definition get_obj_addr :: "u32 \<Rightarrow> libmap \<Rightarrow> u32 option" where
  "get_obj_addr pc L = map_option e_addr (g_obj L pc)"

definition delete_obj :: "u32 \<Rightarrow> libmap \<Rightarrow> libmap" where
  "delete_obj pc L = L\<lparr>g_obj := (g_obj L)(pc := None)\<rparr>"

definition insert_all_obj :: "u32 \<Rightarrow> libmap \<Rightarrow> libmap option" where
  "insert_all_obj pc L =
     (case g_all_obj L pc of
        None \<Rightarrow> Some (L\<lparr>g_all_obj := (g_all_obj L)(pc \<mapsto> 1)\<rparr>)
      | Some n \<Rightarrow> if n \<le> 0 then None else Some (L\<lparr>g_all_obj := (g_all_obj L)(pc \<mapsto> n + 1)\<rparr>))"

definition get_all_obj :: "u32 \<Rightarrow> libmap \<Rightarrow> nat" where
  "get_all_obj pc L = (if g_all_obj L pc = None then 0 else 1)"

text \<open>An absent counter is created as 0 and then fails the test.\<close>

definition delete_all_obj :: "u32 \<Rightarrow> libmap \<Rightarrow> libmap option" where
  "delete_all_obj pc L =
     (case g_all_obj L pc of
        None \<Rightarrow> None
      | Some n \<Rightarrow>
          if n = 1 then Some (L\<lparr>g_all_obj := (g_all_obj L)(pc := None)\<rparr>)
          else if n \<le> 0 then None
          else Some (L\<lparr>g_all_obj := (g_all_obj L)(pc \<mapsto> n - 1)\<rparr>))"

section \<open>Types\<close>

definition update_traced_size :: "size_t \<Rightarrow> u32 \<Rightarrow> libmap \<Rightarrow> libmap" where
  "update_traced_size obj sz L =
     (case map_of (database L) obj of
        Some d \<Rightarrow> if sint (di_size d) < sint sz then L\<lparr>database := omap_put obj (d\<lparr>di_size := sz\<rparr>) (database L)\<rparr> else L
      | None \<Rightarrow> L)"

definition set_createSys :: "guest \<Rightarrow> u32 \<Rightarrow> int \<Rightarrow> size_t \<Rightarrow> u32 \<Rightarrow> u32 \<Rightarrow> string \<Rightarrow> libmap \<Rightarrow> libmap option" where
  "set_createSys G g_pc sysnum obj d_pc d_size d_name L = do {
     let L = L\<lparr>sys_create := (sys_create L)(sysnum := insert obj (sys_create L sysnum))\<rparr>;
     if map_of (database L) obj = None then do {
       cs \<leftarrow> get_cur_callstack_str G L g_pc;
       let L = L\<lparr>output_database := output_database L @ [(cs, obj, d_pc, d_name, d_size)]\<rparr>;
       let data = \<lparr>di_pc = d_pc, di_size = d_size, di_name = d_name, di_callstack = cs, di_types = [], di_pset = {}\<rparr>;
       Some (L\<lparr>database := omap_put obj data (database L)\<rparr>) }
     else Some L }"

definition set_syscall_call_funcs :: "u32 \<Rightarrow> libmap \<Rightarrow> libmap" where
  "set_syscall_call_funcs pc L = L\<lparr>syscall_call_funcs := (syscall_call_funcs L)(pc := syscall_call_funcs L pc + 1)\<rparr>"

definition set_call_relation :: "u32 \<Rightarrow> u32 \<Rightarrow> libmap \<Rightarrow> libmap" where
  "set_call_relation caller callee L =
     L\<lparr>call_relation := omap_put caller
         (insert callee (case map_of (call_relation L) caller of None \<Rightarrow> {} | Some s \<Rightarrow> s)) (call_relation L)\<rparr>"

section \<open>Types from function signatures\<close>

fun stack_words :: "guest \<Rightarrow> u32 \<Rightarrow> nat \<Rightarrow> u32 list option" where
  "stack_words G a 0 = Some []"
| "stack_words G a (Suc n) = do { v \<leftarrow> read_u32 (cpu G) (mem G) a; vs \<leftarrow> stack_words G (a + 4) n; Some (v # vs) }"

text \<open>The parameters fill an array of 50 words.\<close>

definition get_parameter :: "guest \<Rightarrow> Func \<Rightarrow> u32 list option" where
  "get_parameter G func = do {
     let n = length (fn_args func);
     eax \<leftarrow> PEMU_get_reg (cpu G) XED_REG_EAX;
     edx \<leftarrow> PEMU_get_reg (cpu G) XED_REG_EDX;
     ecx \<leftarrow> PEMU_get_reg (cpu G) XED_REG_ECX;
     esp \<leftarrow> PEMU_get_reg (cpu G) XED_REG_ESP;
     vals \<leftarrow> stack_words G esp (2 * n);
     let paras = [eax, edx] @ (if n > 2 then [ecx] else []) @ vals;
     if length paras \<le> 50 then Some paras else None }"

definition add_sem_type :: "size_t \<Rightarrow> u32 \<Rightarrow> string \<Rightarrow> libmap \<Rightarrow> libmap" where
  "add_sem_type ty off name L =
     (case map_of (database L) ty of
        None \<Rightarrow> L
      | Some d \<Rightarrow>
          L\<lparr>database := omap_put ty (d\<lparr>di_types := omap_put off
               (insert name (case map_of (di_types d) off of None \<Rightarrow> {} | Some s \<Rightarrow> s)) (di_types d)\<rparr>) (database L)\<rparr>)"

fun sem_args :: "rbstate \<Rightarrow> u32 list \<Rightarrow> Args list \<Rightarrow> nat \<Rightarrow> libmap \<Rightarrow> libmap option" where
  "sem_args T paras [] index L = Some L"
| "sem_args T paras (a # as) index L =
     (if index < length paras then do {
        p \<leftarrow> ds_code_rbtFind2 (paras ! index) T;
        L \<leftarrow> (if p \<noteq> NULL then do { n \<leftarrow> rb_heap T p; Some (add_sem_type (nd_type n) (paras ! index - nd_key n) (arg_type a) L) }
              else Some L);
        sem_args T paras as (index + arg_size a) L }
      else None)"

definition recover_sem_types :: "guest \<Rightarrow> rbstate \<Rightarrow> u32 \<Rightarrow> libmap \<Rightarrow> (int \<times> libmap) option" where
  "recover_sem_types G T target_pc L =
     (case g_func_interface L target_pc of
        None \<Rightarrow> Some (- 1, L)
      | Some func \<Rightarrow> do {
          paras \<leftarrow> get_parameter G func;
          L \<leftarrow> sem_args T paras (fn_args func) 0 L;
          Some (0, L) })"

section \<open>Instances\<close>

definition set_info_proc :: "guest \<Rightarrow> u32 \<Rightarrow> libmap \<Rightarrow> libmap option" where
  "set_info_proc G addr L = do {
     esp \<leftarrow> get_kernel_esp (cpu G) (mem G);
     let esp = esp AND 0xFFFFE000;
     if proc_addr L esp \<noteq> 0 then None
     else Some (L\<lparr>proc_addr := (proc_addr L)(esp := addr)\<rparr>) }"

definition add_instance :: "size_t \<Rightarrow> u32 \<Rightarrow> libmap \<Rightarrow> libmap" where
  "add_instance type addr L =
     L\<lparr>g_instances := (g_instances L)(addr \<mapsto> \<lparr>inst_type = type, inst_pset = Some {}\<rparr>)\<rparr>"

text \<open>The set of an instance that the index operator has just created is a null pointer.\<close>

definition delete_instance :: "guest \<Rightarrow> u32 \<Rightarrow> u32 \<Rightarrow> libmap \<Rightarrow> libmap option" where
  "delete_instance G g_pc addr L = do {
     i \<leftarrow> g_instances L addr;
     ps \<leftarrow> inst_pset i;
     let L = L\<lparr>output_file1 := output_file1 L @ [(inst_type i, ps)]\<rparr>;
     let L = L\<lparr>g_instances := (g_instances L)(addr := None)\<rparr>;
     cs \<leftarrow> callstack_of G L g_pc;
     let hash = hash_fn G cs;
     if g_delete_callstack L hash = None
     then Some (L\<lparr>g_delete_callstack := (g_delete_callstack L)(hash \<mapsto> cs),
                  output_file4 := output_file4 L @ [(hash, cs)]\<rparr>)
     else Some L }"

definition action_text :: "size_t \<Rightarrow> u32 \<Rightarrow> u32 \<Rightarrow> u32 \<Rightarrow> string" where
  "action_text hash taint func off =
     hex_nat (unat hash) @ '':'' @ hex_nat (unat taint) @ '':'' @ int_to_string func @ '':'' @ int_to_string off"

definition record_action :: "u32 \<Rightarrow> string \<Rightarrow> libmap \<Rightarrow> libmap option" where
  "record_action addr s L = do {
     i \<leftarrow> g_instances L addr;
     ps \<leftarrow> inst_pset i;
     Some (L\<lparr>g_instances := (g_instances L)(addr \<mapsto> i\<lparr>inst_pset := Some (insert s ps)\<rparr>)\<rparr>) }"

definition add_read_action ::
  "guest \<Rightarrow> u32 \<Rightarrow> u32 \<Rightarrow> u32 \<Rightarrow> u32 \<Rightarrow> u32 \<Rightarrow> libmap \<Rightarrow> shadow \<Rightarrow> (libmap \<times> shadow) option" where
  "add_read_action G g_pc addr sz off func L S =
     (if g_instances L addr = None then None
      else do {
        cs \<leftarrow> callstack_of G L g_pc;
        let hash = hash_fn G cs;
        let L = (if g_access_callstack L hash = None
                 then L\<lparr>g_access_callstack := (g_access_callstack L)(hash \<mapsto> cs),
                        output_file2 := output_file2 L @ [(hash, cs)]\<rparr>
                 else L);
        t \<leftarrow> get_mem_taint2 (addr + off) S;
        L \<leftarrow> record_action addr (action_text hash t func off) L;
        Some (L, S) })"

definition add_write_action ::
  "(shadow \<Rightarrow> nat option) \<Rightarrow> guest \<Rightarrow> u32 \<Rightarrow> u32 \<Rightarrow> u32 \<Rightarrow> u32 \<Rightarrow> u32 \<Rightarrow> libmap \<Rightarrow> shadow \<Rightarrow> (libmap \<times> shadow) option" where
  "add_write_action smal G g_pc addr sz off func L S =
     (if g_instances L addr = None then None
      else do {
        cs \<leftarrow> callstack_of G L g_pc;
        let hash = hash_fn G cs;
        let L = (if g_access_callstack L hash = None
                 then L\<lparr>g_access_callstack := (g_access_callstack L)(hash \<mapsto> cs),
                        output_file3 := output_file3 L @ [(hash, cs)]\<rparr>
                 else L);
        t \<leftarrow> get_mem_taint2 (addr + off) S;
        S \<leftarrow> set_mem_taint_bysize2 smal (addr + off) 1 sz S;
        L \<leftarrow> record_action addr (action_text hash t func off) L;
        Some (L, S) })"

section \<open>Relations between types\<close>

definition relation_text :: "string \<Rightarrow> size_t \<Rightarrow> u32 \<Rightarrow> size_t \<Rightarrow> u32 \<Rightarrow> string" where
  "relation_text who src off1 dst off2 =
     who @ '' '' @ hex_nat (unat src) @ '':'' @ int_to_string off1 @ ''->'' @ hex_nat (unat dst) @ '':'' @ int_to_string off2"

definition add_pointTo :: "u32 \<Rightarrow> size_t \<Rightarrow> u32 \<Rightarrow> size_t \<Rightarrow> u32 \<Rightarrow> libmap \<Rightarrow> libmap" where
  "add_pointTo pc src off1 dst off2 L =
     L\<lparr>g_point_to := (g_point_to L)(pc := insert (relation_text (int_to_string pc) src off1 dst off2) (g_point_to L pc))\<rparr>"

definition add_traverse :: "guest \<Rightarrow> u32 \<Rightarrow> size_t \<Rightarrow> u32 \<Rightarrow> size_t \<Rightarrow> u32 \<Rightarrow> libmap \<Rightarrow> libmap option" where
  "add_traverse G pc src off1 dst off2 L = do {
     callstack \<leftarrow> hash_callstack G L pc;
     Some (L\<lparr>g_traverse := (g_traverse L)(callstack :=
       insert (relation_text (hex_nat (unat callstack)) src off1 dst off2) (g_traverse L callstack))\<rparr>) }"

definition add_call_dst :: "u32 \<Rightarrow> libmap \<Rightarrow> libmap" where
  "add_call_dst pc L = L\<lparr>g_dest := insert pc (g_dest L)\<rparr>"

section \<open>Dumps\<close>

text \<open>
  The rows of the dump files. Where the code iterates an unordered container the row is a set;
  \<open>opens\<close> tells which files can be opened, otherwise the process exits.
\<close>

datatype dump =
    Rewards "(size_t \<times> string \<times> (u32, string set) omap) list"
  | Objs "(string \<times> size_t \<times> string) list"
  | Type_rw "(size_t \<times> string set) list"
  | Called "u32 set"
  | Texts "string set"
  | Calls "(u32, u32 set) omap"

definition dump_to :: "(string \<Rightarrow> bool) \<Rightarrow> string \<Rightarrow> dump \<Rightarrow> (string \<times> dump) option" where
  "dump_to opens fname d = (if opens fname then Some (fname, d) else None)"

definition dump_rewards_types :: "(string \<Rightarrow> bool) \<Rightarrow> string \<Rightarrow> libmap \<Rightarrow> (string \<times> dump) option" where
  "dump_rewards_types opens fname L =
     dump_to opens fname (Rewards (map (\<lambda>(ty, d). (ty, di_name d, di_types d)) (database L)))"

definition dump_objs_types :: "(string \<Rightarrow> bool) \<Rightarrow> string \<Rightarrow> libmap \<Rightarrow> (string \<times> dump) option" where
  "dump_objs_types opens fname L =
     dump_to opens fname (Objs (map (\<lambda>(ty, d). (di_callstack d, ty, di_name d)) (database L)))"

definition dump_type_rw :: "(string \<Rightarrow> bool) \<Rightarrow> string \<Rightarrow> libmap \<Rightarrow> (string \<times> dump) option" where
  "dump_type_rw opens fname L =
     dump_to opens fname (Type_rw (map (\<lambda>(ty, d). (ty, di_pset d)) (database L)))"

definition dump_called_func :: "(string \<Rightarrow> bool) \<Rightarrow> string \<Rightarrow> libmap \<Rightarrow> (string \<times> dump) option" where
  "dump_called_func opens fname L = dump_to opens fname (Called (g_dest L))"

definition dump_point_to :: "(string \<Rightarrow> bool) \<Rightarrow> string \<Rightarrow> libmap \<Rightarrow> (string \<times> dump) option" where
  "dump_point_to opens fname L = dump_to opens fname (Texts (\<Union>pc. g_point_to L pc))"

definition dump_traverse :: "(string \<Rightarrow> bool) \<Rightarrow> string \<Rightarrow> libmap \<Rightarrow> (string \<times> dump) option" where
  "dump_traverse opens fname L = dump_to opens fname (Texts (\<Union>cs. g_traverse L cs))"

definition set_dump :: "(string \<Rightarrow> bool) \<Rightarrow> libmap \<Rightarrow> (string \<times> dump) list option" where
  "set_dump opens L = do {
     a \<leftarrow> dump_rewards_types opens ''rewards_types'' L;
     b \<leftarrow> dump_objs_types opens ''all_objs_type'' L;
     c \<leftarrow> dump_type_rw opens ''/home/junyuan/Desktop/dump_func1.s'' L;
     d \<leftarrow> dump_called_func opens ''/home/junyuan/Desktop/dump_called_func.s'' L;
     e \<leftarrow> dump_point_to opens ''/home/junyuan/Desktop/dump_point_to.s'' L;
     f \<leftarrow> dump_traverse opens ''/home/junyuan/Desktop/dump_traverse.s'' L;
     Some [a, b, c, d, e, f] }"

definition print_call_relation :: "(string \<Rightarrow> bool) \<Rightarrow> libmap \<Rightarrow> (string \<times> dump) option" where
  "print_call_relation opens L = dump_to opens ''call_relation'' (Calls (call_relation L))"

section \<open>What the updates keep\<close>

text \<open>
  The data base is ordered, every recorded call stack is stored under its hash, and every
  instance has its set.
\<close>

definition lib_ok :: "(string \<Rightarrow> size_t) \<Rightarrow> libmap \<Rightarrow> bool" where
  "lib_ok hf L \<longleftrightarrow> omap_ok (database L) \<and> esp_ok (g_interrupt_esp L) \<and>
     (\<forall>h cs. g_access_callstack L h = Some cs \<longrightarrow> h = hf cs) \<and>
     (\<forall>h cs. g_delete_callstack L h = Some cs \<longrightarrow> h = hf cs) \<and>
     (\<forall>a i. g_instances L a = Some i \<longrightarrow> inst_pset i \<noteq> None)"

lemma libmap0_ok: "lib_ok hf libmap0"
  by (simp add: lib_ok_def libmap0_def omap_ok_def esp_ok_def)

lemma set_createSys_frame:
  assumes "set_createSys G g_pc n obj p z nm L = Some L'"
  shows "g_instances L' = g_instances L" "g_obj L' = g_obj L" "g_interrupt_esp L' = g_interrupt_esp L"
    "g_access_callstack L' = g_access_callstack L" "g_delete_callstack L' = g_delete_callstack L"
    "omap_ok (database L) \<Longrightarrow> omap_ok (database L')"
  using assms by (auto simp: set_createSys_def Let_def omap_put_ok split: if_splits bind_splits)

lemma set_createSys_ok: "lib_ok hf L \<Longrightarrow> set_createSys G g_pc n obj p z nm L = Some L' \<Longrightarrow> lib_ok hf L'"
  using set_createSys_frame [of G g_pc n obj p z nm L L'] by (simp add: lib_ok_def)

lemma set_createSys_total:
  assumes "callstack_of G L g_pc = Some cs"
  shows "\<exists>L'. set_createSys G g_pc n obj p z nm L = Some L'"
  using assms by (simp add: set_createSys_def get_cur_callstack_str_def callstack_of_def Let_def)

lemma callstack_of_cong: "g_interrupt_esp L' = g_interrupt_esp L \<Longrightarrow> callstack_of G L' pc = callstack_of G L pc"
  by (simp add: callstack_of_def)

lemma lib_ok_pset:
  assumes "lib_ok hf L" "g_instances L addr = Some i"
  obtains ps where "inst_pset i = Some ps"
proof -
  have "inst_pset i \<noteq> None" using assms unfolding lib_ok_def by blast
  thus ?thesis using that by blast
qed

lemma record_action_ok:
  assumes "lib_ok hf L" "g_instances L addr = Some i"
  shows "\<exists>L'. record_action addr s L = Some L' \<and> lib_ok hf L' \<and> dom (g_instances L') = dom (g_instances L) \<and>
    g_interrupt_esp L' = g_interrupt_esp L \<and> g_obj L' = g_obj L"
proof -
  obtain ps where "inst_pset i = Some ps" by (rule lib_ok_pset [OF assms])
  thus ?thesis using assms by (auto simp: record_action_def lib_ok_def)
qed

lemma access_entry_ok:
  assumes "lib_ok hf L"
  shows "lib_ok hf (L\<lparr>g_access_callstack := (g_access_callstack L)(hf cs \<mapsto> cs), output_file2 := o2\<rparr>)"
    "lib_ok hf (L\<lparr>g_access_callstack := (g_access_callstack L)(hf cs \<mapsto> cs), output_file3 := o3\<rparr>)"
  using assms by (simp_all add: lib_ok_def)

lemma add_read_action_ok:
  assumes "lib_ok (hash_fn G) L" "shadow_ok S" "g_instances L addr = Some i" "callstack_of G L g_pc = Some cs"
  shows "\<exists>L'. add_read_action G g_pc addr sz off func L S = Some (L', S) \<and> lib_ok (hash_fn G) L' \<and>
    dom (g_instances L') = dom (g_instances L) \<and> g_interrupt_esp L' = g_interrupt_esp L \<and> g_obj L' = g_obj L"
proof -
  let ?h = "hash_fn G cs"
  define L1 where "L1 = (if g_access_callstack L ?h = None
    then L\<lparr>g_access_callstack := (g_access_callstack L)(?h \<mapsto> cs), output_file2 := output_file2 L @ [(?h, cs)]\<rparr> else L)"
  have L1: "lib_ok (hash_fn G) L1" "g_instances L1 = g_instances L" "g_interrupt_esp L1 = g_interrupt_esp L" "g_obj L1 = g_obj L"
    using access_entry_ok(1) [OF assms(1)] assms(1) by (simp_all add: L1_def)
  obtain L' where "record_action addr (action_text ?h (flat S (addr + off)) func off) L1 = Some L'" "lib_ok (hash_fn G) L'"
    "dom (g_instances L') = dom (g_instances L)" "g_interrupt_esp L' = g_interrupt_esp L" "g_obj L' = g_obj L"
    using record_action_ok [OF L1(1), of addr i] L1(2-4) assms(3) by metis
  thus ?thesis
    using assms(3,4) get_flat [OF assms(2)] unfolding add_read_action_def L1_def by (simp add: Let_def)
qed

lemma add_write_action_ok:
  assumes "lib_ok (hash_fn G) L" "shadow_ok S" "sm_malloc_ok smal" "sm_malloc_total smal"
    "g_instances L addr = Some i" "callstack_of G L g_pc = Some cs"
  shows "\<exists>L' S'. add_write_action smal G g_pc addr sz off func L S = Some (L', S') \<and> lib_ok (hash_fn G) L' \<and> shadow_ok S' \<and>
    flat S' = (\<lambda>b. if b - (addr + off) < sz then 1 else flat S b) \<and>
    dom (g_instances L') = dom (g_instances L) \<and> g_interrupt_esp L' = g_interrupt_esp L \<and> g_obj L' = g_obj L"
proof -
  let ?h = "hash_fn G cs"
  define L1 where "L1 = (if g_access_callstack L ?h = None
    then L\<lparr>g_access_callstack := (g_access_callstack L)(?h \<mapsto> cs), output_file3 := output_file3 L @ [(?h, cs)]\<rparr> else L)"
  have L1: "lib_ok (hash_fn G) L1" "g_instances L1 = g_instances L" "g_interrupt_esp L1 = g_interrupt_esp L" "g_obj L1 = g_obj L"
    using access_entry_ok(2) [OF assms(1)] assms(1) by (simp_all add: L1_def)
  obtain S' where S': "set_mem_taint_bysize2 smal (addr + off) 1 sz S = Some S'" "shadow_ok S'"
    "flat S' = (\<lambda>b. if b - (addr + off) < sz then 1 else flat S b)"
    using bysize_loop_ok [OF assms(2-4), of "addr + off" 1 sz 0] by (auto simp: set_mem_taint_bysize2_def)
  obtain L' where "record_action addr (action_text ?h (flat S (addr + off)) func off) L1 = Some L'" "lib_ok (hash_fn G) L'"
    "dom (g_instances L') = dom (g_instances L)" "g_interrupt_esp L' = g_interrupt_esp L" "g_obj L' = g_obj L"
    using record_action_ok [OF L1(1), of addr i] L1(2-4) assms(5) by metis
  thus ?thesis
    using assms(5,6) S' get_flat [OF assms(2)] unfolding add_write_action_def L1_def by (simp add: Let_def)
qed

lemma delete_instance_ok:
  assumes "lib_ok (hash_fn G) L" "g_instances L addr = Some i" "callstack_of G L g_pc = Some cs"
  shows "\<exists>L'. delete_instance G g_pc addr L = Some L' \<and> lib_ok (hash_fn G) L' \<and>
    g_instances L' = (g_instances L)(addr := None) \<and> g_interrupt_esp L' = g_interrupt_esp L \<and> g_obj L' = g_obj L"
proof -
  obtain ps where "inst_pset i = Some ps" by (rule lib_ok_pset [OF assms(1,2)])
  thus ?thesis using assms by (auto simp: delete_instance_def lib_ok_def callstack_of_def Let_def)
qed

lemma delete_instance_absent: "g_instances L addr = None \<Longrightarrow> delete_instance G g_pc addr L = None"
  by (simp add: delete_instance_def)

lemma add_instance_ok: "lib_ok hf L \<Longrightarrow> lib_ok hf (add_instance ty addr L)"
  by (auto simp: lib_ok_def add_instance_def)

end
