(* ===== verification/Operands.thy ===== *)
theory Operands
  imports GuestCpu
begin

text \<open>
  Operands of decoded instructions: \<open>parse_operand.c\<close> and the call-target code of
  \<open>disas.c\<close>. The decoder library is not part of the repository: a decoded instruction is
  the record of what its accessors return, and the decoder itself is the argument \<open>dec\<close> of the
  definitions that call it. An operation that reads a register array out of its bounds or
  uses an uninitialised local is \<open>None\<close>.
\<close>

section \<open>Decoded instructions\<close>

datatype xed_operand =
    XED_OPERAND_REG nat
  | XED_OPERAND_MEM0
  | XED_OPERAND_MEM1
  | XED_OPERAND_AGEN
  | XED_OPERAND_PTR
  | XED_OPERAND_RELBR
  | XED_OPERAND_IMM0
  | XED_OPERAND_IMM1
  | XED_OPERAND_OTHER nat

datatype xed_error = XED_ERROR_NONE | XED_ERROR_LAST | XED_ERROR_OTHER nat

text \<open>An instruction class is the decoder's name for it.\<close>

type_synonym xed_iclass = string

record xed_decoded_inst =
  xd_iclass :: xed_iclass
  xd_length :: u32
  xd_operands :: "xed_operand list"
  xd_reg :: "xed_operand \<Rightarrow> xed_reg"
  xd_base_reg :: "nat \<Rightarrow> xed_reg"
  xd_index_reg :: "nat \<Rightarrow> xed_reg"
  xd_seg_reg :: "nat \<Rightarrow> xed_reg"
  xd_default_segment :: "nat \<Rightarrow> bool"
  xd_scale :: "nat \<Rightarrow> u32"
  xd_displacement :: "nat \<Rightarrow> u64"
  xd_branch_displacement :: u32
  xd_immediate_is_signed :: bool
  xd_signed_immediate :: u32
  xd_unsigned_immediate :: u64
  xd_second_immediate :: u8
  xd_operand_length :: "nat \<Rightarrow> u32"
  xd_has_rep_prefix :: bool

text \<open>
  The decode buffers. They are passed by pointer and the global \<open>pemu_inst\<close> is one of them,
  so they live in a store; the pointer \<open>pemu_inst\<close> is 0.
\<close>

record PEMU_INST =
  PEMU_inst_buf :: "u8 list"
  PEMU_xedd_g :: xed_decoded_inst

type_synonym inst_store = "nat \<Rightarrow> PEMU_INST"
type_synonym decoder = "u8 list \<Rightarrow> xed_error \<times> xed_decoded_inst"

definition pemu_inst :: nat where "pemu_inst = 0"

abbreviation xedd_g :: "inst_store \<Rightarrow> xed_decoded_inst" where
  "xedd_g ins \<equiv> PEMU_xedd_g (ins pemu_inst)"

text \<open>The globals an address computation leaves behind.\<close>

record operand_globals =
  s_base :: u32
  s_dis :: u32
  s_base_regid :: xed_reg
  s_index_regid :: xed_reg

section \<open>The operand tests of \<open>parse_operand.c\<close>\<close>

text \<open>A test that succeeds returns \<open>Some\<close> of what it writes through its pointer.\<close>

definition operand_is_reg :: "xed_decoded_inst \<Rightarrow> xed_operand \<Rightarrow> xed_reg option" where
  "operand_is_reg xd op_name =
     (case op_name of
        XED_OPERAND_REG n \<Rightarrow> if n < 16 then Some (xd_reg xd op_name) else None
      | _ \<Rightarrow> None)"

definition operand_is_relbr :: "xed_decoded_inst \<Rightarrow> xed_operand \<Rightarrow> u32 option" where
  "operand_is_relbr xd op_name =
     (case op_name of
        XED_OPERAND_PTR \<Rightarrow> Some (xd_branch_displacement xd)
      | XED_OPERAND_RELBR \<Rightarrow> Some (xd_branch_displacement xd)
      | _ \<Rightarrow> None)"

definition operand_is_imm :: "xed_decoded_inst \<Rightarrow> xed_operand \<Rightarrow> u32 option" where
  "operand_is_imm xd op_name =
     (case op_name of
        XED_OPERAND_IMM0 \<Rightarrow>
          if xd_immediate_is_signed xd then Some (xd_signed_immediate xd)
          else Some (ucast (xd_unsigned_immediate xd))
      | XED_OPERAND_IMM1 \<Rightarrow> Some (ucast (xd_second_immediate xd))
      | _ \<Rightarrow> None)"

fun is_mem_op :: "xed_operand \<Rightarrow> bool" where
  "is_mem_op XED_OPERAND_AGEN \<longleftrightarrow> True"
| "is_mem_op XED_OPERAND_MEM0 \<longleftrightarrow> True"
| "is_mem_op XED_OPERAND_MEM1 \<longleftrightarrow> True"
| "is_mem_op _ \<longleftrightarrow> False"

definition get_mem_operand_size :: "xed_decoded_inst \<Rightarrow> xed_operand \<Rightarrow> nat \<Rightarrow> u32" where
  "get_mem_operand_size xd op_name operand_i =
     (if is_mem_op op_name then xd_operand_length xd operand_i else 0)"

text \<open>
  Base, index and scale are read the same way by all variants. The scale is tested at the
  operand's number and read at the memory operand's.
\<close>

definition mem_idx_of :: "xed_operand \<Rightarrow> nat" where
  "mem_idx_of op_name = (if op_name = XED_OPERAND_MEM1 then 1 else 0)"

definition mem_base :: "CPUX86State \<Rightarrow> xed_decoded_inst \<Rightarrow> nat \<Rightarrow> u64 option" where
  "mem_base env xd mem_idx =
     (if xd_base_reg xd mem_idx \<noteq> XED_REG_INVALID
      then map_option ucast (PEMU_get_reg env (xd_base_reg xd mem_idx)) else Some 0)"

definition mem_index :: "CPUX86State \<Rightarrow> xed_decoded_inst \<Rightarrow> nat \<Rightarrow> nat \<Rightarrow> (u64 \<times> u64) option" where
  "mem_index env xd mem_idx operand_i =
     (if mem_idx = 0 \<and> xd_index_reg xd mem_idx \<noteq> XED_REG_INVALID
      then do {
        ix \<leftarrow> PEMU_get_reg env (xd_index_reg xd mem_idx);
        Some (ucast ix, if xd_scale xd operand_i \<noteq> 0 then ucast (xd_scale xd mem_idx) else 0) }
      else Some (0, 0))"

definition operand_is_mem ::
  "CPUX86State \<Rightarrow> xed_decoded_inst \<Rightarrow> operand_globals \<Rightarrow> xed_operand \<Rightarrow> nat \<Rightarrow>
     (operand_globals \<times> u32 option) option" where
  "operand_is_mem env xd g op_name operand_i =
     (if is_mem_op op_name then do {
        let mem_idx = mem_idx_of op_name;
        let g = g\<lparr>s_base_regid := xd_base_reg xd mem_idx\<rparr>;
        base \<leftarrow> mem_base env xd mem_idx;
        let g = g\<lparr>s_index_regid := xd_index_reg xd mem_idx\<rparr>;
        (index, scale) \<leftarrow> mem_index env xd mem_idx operand_i;
        let displacement = xd_displacement xd mem_idx;
        segbase \<leftarrow>
          (if xd_seg_reg xd mem_idx \<noteq> XED_REG_INVALID \<and> \<not> xd_default_segment xd mem_idx
           then do {
             segmentreg \<leftarrow> regmap0 (xd_seg_reg xd mem_idx);
             sg \<leftarrow> arr 6 (segs env) segmentreg;
             Some (ucast (sg_base sg)) }
           else Some (0::u64));
        let mem_addr = ucast (segbase + base + index * scale + displacement);
        Some (g\<lparr>s_base := ucast base, s_dis := ucast (segbase + displacement)\<rparr>, Some mem_addr) }
      else Some (g, None))"

definition get_callDest ::
  "CPUX86State \<Rightarrow> ram \<Rightarrow> inst_store \<Rightarrow> operand_globals \<Rightarrow> xed_decoded_inst \<Rightarrow> u32 \<Rightarrow>
     (operand_globals \<times> u32) option" where
  "get_callDest env m ins g xedd cur_pc = do {
     let op_name = xd_operands xedd ! 0;
     (g, mem) \<leftarrow> operand_is_mem env (xedd_g ins) g op_name 0;
     case mem of
       Some dest \<Rightarrow> do { buf \<leftarrow> read_u32 env m dest; Some (g, buf) }
     | None \<Rightarrow>
         (case operand_is_reg (xedd_g ins) op_name of
            Some reg_id \<Rightarrow> do { dest \<leftarrow> PEMU_get_reg env reg_id; Some (g, dest) }
          | None \<Rightarrow>
              (case operand_is_relbr (xedd_g ins) op_name of
                 Some dest \<Rightarrow> Some (g, dest + (cur_pc + xd_length (xedd_g ins)))
               | None \<Rightarrow> Some (g, 0))) }"

section \<open>The operand tests and call targets of \<open>disas.c\<close>\<close>

text \<open>The static \<open>operand_is_reg\<close> of \<open>disas.c\<close> is the one above word for word.\<close>

definition operand_is_mem4 ::
  "CPUX86State \<Rightarrow> xed_decoded_inst \<Rightarrow> xed_operand \<Rightarrow> nat \<Rightarrow> u32 option option" where
  "operand_is_mem4 env xd op_name operand_i =
     (if is_mem_op op_name then do {
        let mem_idx = mem_idx_of op_name;
        let segbase = 0;
        base \<leftarrow> mem_base env xd mem_idx;
        (index, scale) \<leftarrow> mem_index env xd mem_idx operand_i;
        let displacement = xd_displacement xd mem_idx;
        Some (Some (ucast (segbase + base + index * scale + displacement))) }
      else Some None)"

definition disas_operand_is_mem ::
  "CPUX86State \<Rightarrow> xed_decoded_inst \<Rightarrow> xed_operand \<Rightarrow> nat \<Rightarrow> u32 option option" where
  "disas_operand_is_mem env xd op_name operand_i =
     (if is_mem_op op_name then do {
        let mem_idx = mem_idx_of op_name;
        segbase \<leftarrow>
          (if xd_seg_reg xd mem_idx \<noteq> XED_REG_INVALID
           then map_option ucast (PEMU_get_seg env (xd_seg_reg xd mem_idx)) else Some (0::u64));
        base \<leftarrow> mem_base env xd mem_idx;
        (index, scale) \<leftarrow> mem_index env xd mem_idx operand_i;
        let displacement = xd_displacement xd mem_idx;
        Some (Some (ucast (segbase + base + index * scale + displacement))) }
      else Some None)"

text \<open>
  Reading 15 bytes of code into a decode buffer and decoding them; the code of
  \<open>PEMU_read_mem\<close> is ignored, so an unmapped tail leaves old bytes in the buffer. The
  disassembly text is not modelled.
\<close>

definition fetch :: "CPUX86State \<Rightarrow> ram \<Rightarrow> inst_store \<Rightarrow> u32 \<Rightarrow> nat \<Rightarrow> inst_store" where
  "fetch env m ins pc p =
     ins(p := (ins p)\<lparr>PEMU_inst_buf := fst (PEMU_read_mem env m pc 15 (PEMU_inst_buf (ins p)))\<rparr>)"

definition decode_at :: "decoder \<Rightarrow> inst_store \<Rightarrow> nat \<Rightarrow> inst_store \<times> xed_error" where
  "decode_at dec ins p =
     (case dec (PEMU_inst_buf (ins p)) of (e, xd) \<Rightarrow> (ins(p := (ins p)\<lparr>PEMU_xedd_g := xd\<rparr>), e))"

definition Instrument_CALL_NEAR ::
  "decoder \<Rightarrow> CPUX86State \<Rightarrow> ram \<Rightarrow> inst_store \<Rightarrow> u32 \<Rightarrow> (inst_store \<times> u32) option" where
  "Instrument_CALL_NEAR dec env m ins pc = do {
     let ins = fetch env m ins pc pemu_inst;
     let (ins, xed_error) = decode_at dec ins pemu_inst;
     let xd = xedd_g ins;
     let op_name = xd_operands xd ! 0;
     mem \<leftarrow> disas_operand_is_mem env xd op_name 0;
     target \<leftarrow>
       (case mem of
          Some mem_addr \<Rightarrow> read_u32 env m mem_addr
        | None \<Rightarrow>
            (case operand_is_reg xd op_name of
               Some reg_id \<Rightarrow> PEMU_get_reg env reg_id
             | None \<Rightarrow> Some (xd_branch_displacement xd + pc + xd_length xd)));
     Some (ins, target) }"

definition disas_one_inst_ex ::
  "decoder \<Rightarrow> CPUX86State \<Rightarrow> ram \<Rightarrow> inst_store \<Rightarrow> u32 \<Rightarrow> nat \<Rightarrow> inst_store \<times> xed_error" where
  "disas_one_inst_ex dec env m ins pc p = decode_at dec (fetch env m ins pc p) p"

text \<open>The opcode test reads the global buffer, whatever buffer was filled.\<close>

definition disas_callnear_ex ::
  "decoder \<Rightarrow> CPUX86State \<Rightarrow> ram \<Rightarrow> inst_store \<Rightarrow> u32 \<Rightarrow> nat \<Rightarrow> inst_store \<times> xed_error" where
  "disas_callnear_ex dec env m ins pc p =
     (let ins = fetch env m ins pc p;
          b = PEMU_inst_buf (ins pemu_inst) ! 0 in
      if b \<noteq> 0xE8 \<and> b \<noteq> 0xFF then (ins, XED_ERROR_LAST)
      else decode_at dec ins p)"

definition first_byte :: "CPUX86State \<Rightarrow> ram \<Rightarrow> u32 \<Rightarrow> u8 option" where
  "first_byte env m pc = map_option m (xlate env m pc)"

definition disas_is_jmpE9_call :: "CPUX86State \<Rightarrow> ram \<Rightarrow> u32 \<Rightarrow> u32 option" where
  "disas_is_jmpE9_call env m pc = do {
     b \<leftarrow> first_byte env m pc;
     Some (if b = 0xE9 \<or> b = 0xE8 \<or> b = 0xFF then 1 else 0) }"

datatype disas_result = Target u32 | Exit_process

definition disas_get_target ::
  "decoder \<Rightarrow> CPUX86State \<Rightarrow> ram \<Rightarrow> inst_store \<Rightarrow> u32 \<Rightarrow> nat \<Rightarrow> (inst_store \<times> disas_result) option" where
  "disas_get_target dec env m ins start_pc p = do {
     let ins = fetch env m ins start_pc p;
     let (ins, xed_error) = decode_at dec ins p;
     let xd = PEMU_xedd_g (ins p);
     if xed_error \<noteq> XED_ERROR_NONE then Some (ins, Exit_process)
     else if xd_iclass xd \<noteq> ''CALL_NEAR'' then Some (ins, Target 0)
     else
       let op_name = xd_operands xd ! 0 in
       (case operand_is_relbr (xedd_g ins) op_name of
          Some dest \<Rightarrow> Some (ins, Target (dest + (start_pc + xd_length xd)))
        | None \<Rightarrow>
            (case operand_is_reg (xedd_g ins) op_name of
               Some reg_id \<Rightarrow> do { dest \<leftarrow> PEMU_get_reg env reg_id; Some (ins, Target dest) }
             | None \<Rightarrow> do {
                 mem \<leftarrow> operand_is_mem4 env (xedd_g ins) op_name 0;
                 dest \<leftarrow> mem;
                 tmp \<leftarrow> read_u32 env m dest;
                 Some (ins, Target tmp) })) }"

definition disas_is_call :: "CPUX86State \<Rightarrow> ram \<Rightarrow> u32 \<Rightarrow> u32 option" where
  "disas_is_call env m pc = do {
     b \<leftarrow> first_byte env m pc;
     Some (if b = 0xE8 \<or> b = 0xFF then 1 else 0) }"

section \<open>Effective addresses\<close>

text \<open>
  The address an operand denotes, computed in 32 bits: segment base, base register, scaled
  index and displacement. The base and index accessors already return 0 for the absent
  register.
\<close>

definition effective_address :: "CPUX86State \<Rightarrow> xed_decoded_inst \<Rightarrow> xed_operand \<Rightarrow> u32 \<Rightarrow> u32 option" where
  "effective_address env xd op seg =
     (let k = mem_idx_of op in do {
        b \<leftarrow> PEMU_get_reg env (xd_base_reg xd k);
        i \<leftarrow> (if k = 0 then PEMU_get_reg env (xd_index_reg xd k) else Some 0);
        Some (seg + b + i * xd_scale xd k + ucast (xd_displacement xd k)) })"

text \<open>The segment base each variant adds.\<close>

definition override_base :: "CPUX86State \<Rightarrow> xed_decoded_inst \<Rightarrow> xed_operand \<Rightarrow> u32 option" where
  "override_base env xd op =
     (if xd_default_segment xd (mem_idx_of op) then Some 0
      else PEMU_get_seg env (xd_seg_reg xd (mem_idx_of op)))"

definition scale_agrees :: "xed_decoded_inst \<Rightarrow> xed_operand \<Rightarrow> nat \<Rightarrow> bool" where
  "scale_agrees xd op i \<longleftrightarrow> (mem_idx_of op = 0 \<and> xd_scale xd i = 0 \<longrightarrow> xd_scale xd 0 = 0)"

lemma get_reg_invalid [simp]: "PEMU_get_reg env XED_REG_INVALID = Some 0"
  by (simp add: PEMU_get_reg_def)

lemma get_seg_invalid [simp]: "PEMU_get_seg env XED_REG_INVALID = Some 0"
  by (simp add: PEMU_get_seg_def)

lemma get_seg_valid:
  "r \<noteq> XED_REG_INVALID \<Longrightarrow>
     PEMU_get_seg env r = do { i \<leftarrow> regmap0 r; sg \<leftarrow> arr 6 (segs env) i; Some (sg_base sg) }"
  by (simp add: PEMU_get_seg_def)

lemma mem_base_eq: "mem_base env xd k = map_option ucast (PEMU_get_reg env (xd_base_reg xd k))"
  by (simp add: mem_base_def)

lemma mem_index_eq:
  assumes "scale_agrees xd op i"
  shows "mem_index env xd (mem_idx_of op) i =
    (if mem_idx_of op = 0 \<and> xd_index_reg xd 0 \<noteq> XED_REG_INVALID
     then map_option (\<lambda>v. (ucast v, ucast (xd_scale xd 0))) (PEMU_get_reg env (xd_index_reg xd 0))
     else Some (0, 0))"
  using assms
  by (cases "PEMU_get_reg env (xd_index_reg xd 0)") (auto simp: mem_index_def scale_agrees_def)

lemmas ucast_low = ucast_low_add ucast_low_mult

text \<open>All variants compute the effective address, each over the segment base it adds.\<close>

lemma operand_is_mem_effective:
  assumes "is_mem_op op" "scale_agrees xd op i"
  shows "map_option snd (operand_is_mem env xd g op i) =
    do { seg \<leftarrow> override_base env xd op; map_option Some (effective_address env xd op seg) }"
  using assms(1)
  by (cases "PEMU_get_reg env (xd_base_reg xd (mem_idx_of op))";
      cases "PEMU_get_reg env (xd_index_reg xd 0)")
    (auto simp: operand_is_mem_def mem_base_eq mem_index_eq [OF assms(2)] effective_address_def
      override_base_def get_seg_valid Let_def ucast_low split: option.splits bind_splits)

lemma operand_is_mem4_effective:
  assumes "is_mem_op op" "scale_agrees xd op i"
  shows "operand_is_mem4 env xd op i = map_option Some (effective_address env xd op 0)"
  using assms(1)
  by (cases "PEMU_get_reg env (xd_base_reg xd (mem_idx_of op))";
      cases "PEMU_get_reg env (xd_index_reg xd 0)")
    (auto simp: operand_is_mem4_def mem_base_eq mem_index_eq [OF assms(2)] effective_address_def
      Let_def ucast_low)

lemma disas_operand_is_mem_effective:
  assumes "is_mem_op op" "scale_agrees xd op i"
  shows "disas_operand_is_mem env xd op i =
    do { seg \<leftarrow> PEMU_get_seg env (xd_seg_reg xd (mem_idx_of op));
         map_option Some (effective_address env xd op seg) }"
  using assms(1)
  by (cases "PEMU_get_reg env (xd_base_reg xd (mem_idx_of op))";
      cases "PEMU_get_reg env (xd_index_reg xd 0)";
      cases "PEMU_get_seg env (xd_seg_reg xd (mem_idx_of op))")
    (auto simp: disas_operand_is_mem_def mem_base_eq mem_index_eq [OF assms(2)] effective_address_def
      Let_def ucast_low)

lemma not_mem_op:
  assumes "\<not> is_mem_op op"
  shows "operand_is_mem env xd g op i = Some (g, None)" "operand_is_mem4 env xd op i = Some None"
    "disas_operand_is_mem env xd op i = Some None"
  using assms by (simp_all add: operand_is_mem_def operand_is_mem4_def disas_operand_is_mem_def)

section \<open>Decoding\<close>

lemma decode_fetch:
  assumes "dec (fst (PEMU_read_mem env m pc 15 (PEMU_inst_buf (ins p)))) = (e, xd)"
  shows "snd (decode_at dec (fetch env m ins pc p) p) = e"
    and "PEMU_xedd_g (fst (decode_at dec (fetch env m ins pc p) p) p) = xd"
  using assms by (simp_all add: decode_at_def fetch_def)

text \<open>The first byte of the buffer is the guest's byte at \<open>pc\<close> when that page is mapped.\<close>

lemma fetch_first:
  assumes "first_byte env m pc = Some b"
  shows "fst (PEMU_read_mem env m pc 15 buf) ! 0 = b"
proof -
  obtain p where p: "xlate env m pc = Some p" "b = m p"
    using assms by (auto simp: first_byte_def)
  define l where "l = min (uint ((pc AND TARGET_PAGE_MASK) + TARGET_PAGE_SIZE - pc)) 15"
  have "0 < l" by (simp add: l_def chunk_size)
  hence "phys_read m p (nat l) = m p # phys_read m (p + 1) (nat l - 1)"
    using phys_read_Suc [of m p "nat l - 1"] by simp
  thus ?thesis
    using p by (simp add: PEMU_read_mem_def cpu_memory_rw_debug.simps [of env m pc] Let_def
        xlate_def page_mask_and l_def split: if_splits prod.splits)
qed

section \<open>Properties\<close>

text \<open>The machine the witnesses run on: no paging, register \<open>i\<close> holds \<open>256 i\<close>, flat segments but FS.\<close>

definition test_env :: CPUX86State where
  "test_env = \<lparr>regs = \<lambda>i. 256 * word_of_nat i, eip = 0, eflags = 0, cc_dst = 0, cc_src = 0,
     cc_src2 = 0, cc_op = CC_OP_DYNAMIC, df = 1, hflags = 0,
     segs = \<lambda>i. \<lparr>sg_selector = 0, sg_base = if i = 4 then 0x1000 else 0, sg_limit = - 1, sg_flags = 0\<rparr>,
     cr = \<lambda>_. 0, a20_mask = - 1\<rparr>"

definition test_inst :: "xed_operand \<Rightarrow> xed_reg \<Rightarrow> xed_decoded_inst" where
  "test_inst op sr = \<lparr>xd_iclass = ''CALL_NEAR'', xd_length = 2, xd_operands = [op],
     xd_reg = \<lambda>_. XED_REG_ESI, xd_base_reg = \<lambda>_. XED_REG_EBX, xd_index_reg = \<lambda>_. XED_REG_ECX,
     xd_seg_reg = \<lambda>_. sr, xd_default_segment = \<lambda>_. False, xd_scale = \<lambda>_. 4,
     xd_displacement = \<lambda>_. - 4, xd_branch_displacement = 0x20, xd_immediate_is_signed = False,
     xd_signed_immediate = 0, xd_unsigned_immediate = 0, xd_second_immediate = 0,
     xd_operand_length = \<lambda>_. 4, xd_has_rep_prefix = False\<rparr>"

definition test_insts :: inst_store where
  "test_insts = (\<lambda>_. \<lparr>PEMU_inst_buf = replicate 15 0, PEMU_xedd_g = test_inst XED_OPERAND_RELBR 0\<rparr>)"

definition test_ram :: ram where
  "test_ram a = ucast (drop_bit 8 a)"

definition XED_REG_FS :: xed_reg where "XED_REG_FS = 137"


definition test_globals :: operand_globals where
  "test_globals = \<lparr>s_base = 0, s_dis = 0, s_base_regid = 0, s_index_regid = 0\<rparr>"


text \<open>
  On flat segments (the operand's segment has base 0) the three address computations of
  the sources agree: the one of \<open>parse_operand.c\<close>, and \<open>operand_is_mem4\<close> and the static
  \<open>operand_is_mem\<close> of \<open>disas.c\<close>.
\<close>

theorem mem_variants_agree:
  assumes "is_mem_op op" "scale_agrees xd op i"
    and "PEMU_get_seg env (xd_seg_reg xd (mem_idx_of op)) = Some 0"
  shows "disas_operand_is_mem env xd op i = operand_is_mem4 env xd op i \<and>
    map_option snd (operand_is_mem env xd g op i) = operand_is_mem4 env xd op i"
  using assms(3)
  by (simp_all add: operand_is_mem_effective operand_is_mem4_effective
      disas_operand_is_mem_effective override_base_def assms(1,2))

theorem mem_variants_agree_witness:
  "disas_operand_is_mem test_env (test_inst XED_OPERAND_MEM0 0) XED_OPERAND_MEM0 0 = Some (Some 0x6FC) \<and>
   map_option snd (operand_is_mem test_env (test_inst XED_OPERAND_MEM0 0) test_globals XED_OPERAND_MEM0 0) =
     Some (Some 0x6FC)"
proof -
  let ?x = "test_inst XED_OPERAND_MEM0 0"
  have h: "is_mem_op XED_OPERAND_MEM0" "scale_agrees ?x XED_OPERAND_MEM0 0"
    "PEMU_get_seg test_env (xd_seg_reg ?x (mem_idx_of XED_OPERAND_MEM0)) = Some 0"
    by code_simp+
  have "operand_is_mem4 test_env ?x XED_OPERAND_MEM0 0 = Some (Some 0x6FC)"
    by code_simp
  thus ?thesis using mem_variants_agree [OF h] by simp
qed

text \<open>A first operand of a near call that the three target computations know.\<close>

fun call_operand :: "xed_operand \<Rightarrow> bool" where
  "call_operand XED_OPERAND_RELBR \<longleftrightarrow> True"
| "call_operand XED_OPERAND_MEM0 \<longleftrightarrow> True"
| "call_operand (XED_OPERAND_REG n) \<longleftrightarrow> n < 16"
| "call_operand _ \<longleftrightarrow> False"

definition call_target ::
  "CPUX86State \<Rightarrow> ram \<Rightarrow> xed_decoded_inst \<Rightarrow> u32 \<Rightarrow> u32 option" where
  "call_target env m xd pc =
     (let op = xd_operands xd ! 0 in
      case operand_is_reg xd op of
        Some r \<Rightarrow> PEMU_get_reg env r
      | None \<Rightarrow> if is_mem_op op then do { a \<leftarrow> effective_address env xd op 0; read_u32 env m a }
                else Some (pc + xd_length xd + xd_branch_displacement xd))"

lemma call_operand_cases:
  assumes "call_operand op"
  obtains "op = XED_OPERAND_RELBR" | "op = XED_OPERAND_MEM0" | n where "op = XED_OPERAND_REG n" "n < 16"
  using assms by (cases op) auto

lemma scale_agrees_0 [simp]: "scale_agrees xd op 0"
  by (simp add: scale_agrees_def)

lemma decode_store:
  "decode_at dec ins p = (ins(p := (ins p)\<lparr>PEMU_xedd_g := snd (dec (PEMU_inst_buf (ins p)))\<rparr>), fst (dec (PEMU_inst_buf (ins p))))"
  by (simp add: decode_at_def split: prod.splits)

lemma Instrument_CALL_NEAR_target:
  assumes "dec (fst (PEMU_read_mem env m pc 15 (PEMU_inst_buf (ins pemu_inst)))) = (e, xd)"
    and "call_operand (xd_operands xd ! 0)"
    and "PEMU_get_seg env (xd_seg_reg xd 0) = Some 0"
  shows "map_option snd (Instrument_CALL_NEAR dec env m ins pc) = call_target env m xd pc"
  using assms(2,1,3)
  by (cases rule: call_operand_cases)
    (auto simp: Instrument_CALL_NEAR_def decode_store fetch_def not_mem_op operand_is_reg_def
      call_target_def disas_operand_is_mem_effective mem_idx_of_def Let_def ac_simps
      split: option.splits bind_splits)

lemma disas_get_target_target:
  assumes "dec (fst (PEMU_read_mem env m pc 15 (PEMU_inst_buf (ins pemu_inst)))) = (XED_ERROR_NONE, xd)"
    and "call_operand (xd_operands xd ! 0)" and "xd_iclass xd = ''CALL_NEAR''"
  shows "map_option snd (disas_get_target dec env m ins pc pemu_inst) = map_option Target (call_target env m xd pc)"
  using assms(2,1,3)
  by (cases rule: call_operand_cases)
    (auto simp: disas_get_target_def decode_store fetch_def not_mem_op operand_is_reg_def
      operand_is_relbr_def call_target_def operand_is_mem4_effective mem_idx_of_def Let_def ac_simps
      split: option.splits bind_splits)

lemma get_callDest_target:
  assumes "xedd_g ins = xd" and "call_operand (xd_operands xd ! 0)"
    and "PEMU_get_seg env (xd_seg_reg xd 0) = Some 0"
  shows "map_option snd (get_callDest env m ins g xd pc) = call_target env m xd pc"
proof (cases "is_mem_op (xd_operands xd ! 0)")
  case True
  hence op: "xd_operands xd ! 0 = XED_OPERAND_MEM0" using assms(2) by - (erule call_operand_cases; simp)
  have "map_option snd (operand_is_mem env xd g XED_OPERAND_MEM0 0) =
      map_option Some (effective_address env xd XED_OPERAND_MEM0 0)"
    using assms(3) by (simp add: operand_is_mem_effective override_base_def mem_idx_of_def)
  thus ?thesis
    by (cases "operand_is_mem env xd g XED_OPERAND_MEM0 0")
      (auto simp: get_callDest_def call_target_def op assms(1) operand_is_reg_def Let_def map_option_case
        split: option.splits bind_splits prod.splits)
next
  case False
  show ?thesis using assms(2) False
    by (cases rule: call_operand_cases)
      (auto simp: get_callDest_def call_target_def not_mem_op operand_is_reg_def operand_is_relbr_def
        assms(1) ac_simps split: option.splits bind_splits)
qed

text \<open>
  C26: On flat segments the three computations of a near call's target agree, for direct
  calls, calls through a register and calls through memory: the one of the call hook, the one of
  the disassembler and the one used for the call stack. For a direct call it is the address of
  the next instruction plus the displacement, modulo 2^32.
\<close>

theorem call_targets_agree:
  assumes "dec (fst (PEMU_read_mem env m pc 15 (PEMU_inst_buf (ins pemu_inst)))) = (XED_ERROR_NONE, xd)"
    and "call_operand (xd_operands xd ! 0)" "xd_iclass xd = ''CALL_NEAR''"
    and "PEMU_get_seg env (xd_seg_reg xd 0) = Some 0"
  shows "map_option snd (Instrument_CALL_NEAR dec env m ins pc) = call_target env m xd pc \<and>
    map_option snd (disas_get_target dec env m ins pc pemu_inst) = map_option Target (call_target env m xd pc) \<and>
    map_option snd (get_callDest env m (fst (disas_one_inst_ex dec env m ins pc pemu_inst)) g xd pc) =
      call_target env m xd pc"
proof (intro conjI)
  show "map_option snd (Instrument_CALL_NEAR dec env m ins pc) = call_target env m xd pc"
    by (rule Instrument_CALL_NEAR_target) (fact assms)+
  show "map_option snd (disas_get_target dec env m ins pc pemu_inst) = map_option Target (call_target env m xd pc)"
    by (rule disas_get_target_target) (fact assms)+
  have "xedd_g (fst (disas_one_inst_ex dec env m ins pc pemu_inst)) = xd"
    unfolding disas_one_inst_ex_def by (rule decode_fetch(2)) (fact assms)
  thus "map_option snd (get_callDest env m (fst (disas_one_inst_ex dec env m ins pc pemu_inst)) g xd pc) =
      call_target env m xd pc"
    by (rule get_callDest_target) (fact assms)+
qed

definition test_dec :: "xed_operand \<Rightarrow> xed_reg \<Rightarrow> decoder" where
  "test_dec op sr bs = (XED_ERROR_NONE, test_inst op sr)"

theorem call_targets_agree_witness:
  "map_option snd (Instrument_CALL_NEAR (test_dec XED_OPERAND_MEM0 0) test_env test_ram test_insts 0xC0001000) =
     Some 0x06060606 \<and>
   map_option snd (disas_get_target (test_dec XED_OPERAND_MEM0 0) test_env test_ram test_insts 0xC0001000 pemu_inst) =
     Some (Target 0x06060606)"
proof -
  let ?x = "test_inst XED_OPERAND_MEM0 0" and ?d = "test_dec XED_OPERAND_MEM0 0"
  have h: "?d (fst (PEMU_read_mem test_env test_ram 0xC0001000 15 (PEMU_inst_buf (test_insts pemu_inst)))) =
      (XED_ERROR_NONE, ?x)"
    "call_operand (xd_operands ?x ! 0)" "xd_iclass ?x = ''CALL_NEAR''"
    "PEMU_get_seg test_env (xd_seg_reg ?x 0) = Some 0"
       apply (simp add: test_dec_def)
      apply code_simp+
    done
  have "call_target test_env test_ram ?x 0xC0001000 = Some 0x06060606"
    by code_simp
  thus ?thesis
    using call_targets_agree [where dec = ?d and xd = ?x and env = test_env and m = test_ram and pc = "0xC0001000"
        and ins = test_insts and g = test_globals] h by simp
qed

text \<open>
  The agreement needs flat segments. For a call through an FS-relative pointer the call hook
  adds the base of FS while \<open>disas_get_target\<close> does not, and the two read the target from
  different addresses.
\<close>

theorem call_targets_diverge:
  "map_option snd (Instrument_CALL_NEAR (test_dec XED_OPERAND_MEM0 XED_REG_FS) test_env test_ram test_insts 0xC0001000) =
     Some 0x16161616 \<and>
   map_option snd (disas_get_target (test_dec XED_OPERAND_MEM0 XED_REG_FS) test_env test_ram test_insts 0xC0001000 pemu_inst) =
     Some (Target 0x06060606)"
  by code_simp

end
