(* ===== verification/Tracer.thy ===== *)
theory Tracer
  imports LibMap RbStore Operands
begin

text \<open>
  The hooks of the tracer: \<open>main.c\<close>, the active part of \<open>linux.c\<close>, \<open>infer_size.c\<close>,
  \<open>ds_code_all_insert_rb\<close>, the hooks of \<open>disas.c\<close> and the interrupt hooks of
  \<open>seg_helper.c\<close>. Each hook runs on the state of all components: the object tree, the data
  base, the shadow memory and the decoder's buffers. The two allocators and the instruction
  decoder are arguments. \<open>None\<close> is a failed \<open>assert\<close>, undefined behaviour or a hook that
  does not return.
\<close>

section \<open>State\<close>

record tracer =
  tree :: rbstate
  lib :: libmap
  shd :: shadow
  insts :: inst_store
  opnds :: operand_globals
  g_pc :: u32
  s_sysnum :: int

record host =
  rbmal :: "rbstate \<Rightarrow> nptr"
  smal :: "shadow \<Rightarrow> nat option"
  xdec :: decoder

section \<open>Configuration\<close>

definition KMEM_CACHE_ALLOC :: u32 where "KMEM_CACHE_ALLOC = 0xC10ACB31"
definition KMEM_CACHE_FREE :: u32 where "KMEM_CACHE_FREE = 0xC10AC7B2"
definition KFREE :: u32 where "KFREE = 0xC10AC856"
definition KMEM_CACHE_ALLOC_TRACE :: u32 where "KMEM_CACHE_ALLOC_TRACE = 0"
definition KMALLOC :: u32 where "KMALLOC = 0xC10AD425"
definition KMALLOC_TRACK_CALLER :: u32 where "KMALLOC_TRACK_CALLER = 0xC10AD341"
definition VMALLOC_NODE_FLAGS :: u32 where "VMALLOC_NODE_FLAGS = 0xC10A25DE"
definition VFREE :: u32 where "VFREE = 0xC10A1E5E"
definition KERNEL_ADDR_MIN :: u32 where "KERNEL_ADDR_MIN = 0xC0000000"

lemmas kernel_defs = KMEM_CACHE_ALLOC_def KMEM_CACHE_FREE_def KFREE_def KMEM_CACHE_ALLOC_TRACE_def
  KMALLOC_def KMALLOC_TRACK_CALLER_def VMALLOC_NODE_FLAGS_def VFREE_def KERNEL_ADDR_MIN_def

section \<open>Arguments of the allocator's functions\<close>

text \<open>
  A C string of at most \<open>n\<close> bytes in guest memory: the bytes up to the first zero, each of them
  mapped.
\<close>

fun guest_cstr :: "CPUX86State \<Rightarrow> ram \<Rightarrow> u32 \<Rightarrow> nat \<Rightarrow> string option" where
  "guest_cstr env m a 0 = None"
| "guest_cstr env m a (Suc n) = do {
     p \<leftarrow> xlate env m a;
     if m p = 0 then Some [] else do { s \<leftarrow> guest_cstr env m (a + 1) n; Some (char_of (unat (m p)) # s) } }"

definition get_kmem_cache_alloc_args :: "guest \<Rightarrow> (u32 \<times> string) option" where
  "get_kmem_cache_alloc_args G = do {
     tmp \<leftarrow> PEMU_get_reg (cpu G) XED_REG_EAX;
     objsize \<leftarrow> read_u32 (cpu G) (mem G) (tmp + 0x4);
     tmp1 \<leftarrow> read_u32 (cpu G) (mem G) (tmp + 0x54);
     name \<leftarrow> guest_cstr (cpu G) (mem G) tmp1 50;
     Some (objsize, name) }"

text \<open>In the active configuration this function sets neither of its results.\<close>

definition get_kmem_cache_alloc_trace_args :: "guest \<Rightarrow> (u32 \<times> string) option" where
  "get_kmem_cache_alloc_trace_args G = None"

definition get_kmalloc_args :: "guest \<Rightarrow> u32 option" where
  "get_kmalloc_args G = PEMU_get_reg (cpu G) XED_REG_EAX"

definition get_vmalloc_args :: "guest \<Rightarrow> u32 option" where
  "get_vmalloc_args G = PEMU_get_reg (cpu G) XED_REG_EAX"

definition get_kmem_cache_free_args :: "guest \<Rightarrow> u32 option" where
  "get_kmem_cache_free_args G = PEMU_get_reg (cpu G) XED_REG_EDX"

section \<open>Allocation\<close>

definition ds_code_all_insert_rb :: "host \<Rightarrow> guest \<Rightarrow> u32 \<Rightarrow> u32 \<Rightarrow> NodeType \<Rightarrow> tracer \<Rightarrow> tracer option" where
  "ds_code_all_insert_rb H G start_addr sz p s = do {
     name \<leftarrow> strcpy_into 30 (nd_name p);
     L \<leftarrow> set_createSys G (g_pc s) (s_sysnum s) (nd_type p) (nd_pc p) sz name (lib s);
     (code, T) \<leftarrow> rbtInsert2 (rbmal H) start_addr sz p (tree s);
     if code \<noteq> RBT_STATUS_OK then None else Some (s\<lparr>lib := L, tree := T\<rparr>) }"

definition add_obj :: "host \<Rightarrow> guest \<Rightarrow> u32 \<Rightarrow> u32 \<Rightarrow> string \<Rightarrow> u32 \<Rightarrow> tracer \<Rightarrow> tracer option" where
  "add_obj H G addr sz name call_pc s = do {
     type \<leftarrow> hash_callstack G (lib s) call_pc;
     obj_name \<leftarrow> strcpy_into 30 name;
     let hp = node_of \<lparr>o_key = addr, o_size = sz, o_type = type, o_pc = call_pc, o_name = obj_name\<rparr>;
     let s = s\<lparr>lib := delete_obj call_pc (lib s)\<rparr>;
     s \<leftarrow> ds_code_all_insert_rb H G addr sz hp s;
     let s = s\<lparr>lib := add_instance type addr (lib s)\<rparr>;
     S \<leftarrow> set_mem_taint_bysize2 (smal H) addr 0 sz (shd s);
     Some (s\<lparr>shd := S\<rparr>) }"

definition alloc_entry :: "guest \<Rightarrow> (u32 \<times> string) option \<Rightarrow> tracer \<Rightarrow> tracer option" where
  "alloc_entry G args s = do {
     esp \<leftarrow> PEMU_get_reg (cpu G) XED_REG_ESP;
     ret_addr \<leftarrow> read_u32 (cpu G) (mem G) esp;
     (objsize, name) \<leftarrow> args;
     Some (s\<lparr>lib := insert_obj ret_addr 0 objsize name (lib s)\<rparr>) }"

definition all_delete :: "u32 \<Rightarrow> tracer \<Rightarrow> tracer option" where
  "all_delete addr s = do { (n, T) \<leftarrow> ds_code_all_delete_rb addr (tree s); Some (s\<lparr>tree := T\<rparr>) }"

text \<open>The allocator has returned to \<open>pc_start\<close>; then, one of its functions is entered.\<close>

definition object_returned :: "host \<Rightarrow> guest \<Rightarrow> u32 \<Rightarrow> tracer \<Rightarrow> tracer option" where
  "object_returned H G pc_start s =
     (if get_obj pc_start (lib s) \<noteq> 0 then do {
        name \<leftarrow> get_name pc_start 50 (lib s);
        obj_addr \<leftarrow> PEMU_get_reg (cpu G) XED_REG_EAX;
        sz \<leftarrow> get_size pc_start (lib s);
        add_obj H G obj_addr sz name pc_start s }
      else Some s)"

definition object_called :: "guest \<Rightarrow> u32 \<Rightarrow> tracer \<Rightarrow> tracer option" where
  "object_called G pc_start s =
     (if pc_start = KMEM_CACHE_ALLOC then alloc_entry G (get_kmem_cache_alloc_args G) s
      else if pc_start = KMEM_CACHE_ALLOC_TRACE then alloc_entry G (get_kmem_cache_alloc_trace_args G) s
      else if pc_start = KMALLOC \<or> pc_start = KMALLOC_TRACK_CALLER
      then alloc_entry G (map_option (\<lambda>n. (n, ''kmalloc-XX'')) (get_kmalloc_args G)) s
      else if pc_start = VMALLOC_NODE_FLAGS
      then alloc_entry G (map_option (\<lambda>n. (n, ''vmalloc-XX'')) (get_vmalloc_args G)) s
      else if pc_start = KMEM_CACHE_FREE then do {
        addr \<leftarrow> get_kmem_cache_free_args G;
        all_delete addr s }
      else if pc_start = KFREE \<or> pc_start = VFREE then do {
        addr \<leftarrow> PEMU_get_reg (cpu G) XED_REG_EAX;
        all_delete addr s }
      else Some s)"

definition object_hook :: "host \<Rightarrow> guest \<Rightarrow> u32 \<Rightarrow> tracer \<Rightarrow> tracer option" where
  "object_hook H G pc_start s = do {
     s \<leftarrow> object_returned H G pc_start s;
     object_called G pc_start s }"

section \<open>Deletion\<close>

definition delete_at :: "guest \<Rightarrow> u32 \<Rightarrow> tracer \<Rightarrow> tracer option" where
  "delete_at G addr s = do {
     p \<leftarrow> ds_code_rbtFind2 addr (tree s);
     s \<leftarrow> (if p \<noteq> NULL then do {
             L \<leftarrow> delete_instance G (g_pc s) addr (lib s);
             Some (s\<lparr>lib := L\<rparr>) }
           else Some s);
     all_delete addr s }"

definition trace_delete :: "guest \<Rightarrow> u32 \<Rightarrow> tracer \<Rightarrow> tracer option" where
  "trace_delete G pc_start s =
     (if pc_start = KMEM_CACHE_FREE then do {
        addr \<leftarrow> get_kmem_cache_free_args G;
        delete_at G addr s }
      else if pc_start = KFREE then do {
        addr \<leftarrow> PEMU_get_reg (cpu G) XED_REG_EAX;
        delete_at G addr s }
      else Some s)"

definition helper_hook :: "host \<Rightarrow> guest \<Rightarrow> u32 \<Rightarrow> tracer \<Rightarrow> tracer option" where
  "helper_hook H G pc_start s =
     (if pc_start < KERNEL_ADDR_MIN then Some s
      else do {
        let s = s\<lparr>g_pc := pc_start\<rparr>;
        s \<leftarrow> trace_delete G pc_start s;
        object_hook H G pc_start s })"

section \<open>Memory accesses\<close>

definition helper_store :: "host \<Rightarrow> guest \<Rightarrow> u32 \<Rightarrow> u32 \<Rightarrow> u32 \<Rightarrow> tracer \<Rightarrow> tracer option" where
  "helper_store H G val addr sz s =
     (if addr < 0xC0000000 then Some s
      else do {
        tmp \<leftarrow> ds_code_rbtFind2 addr (tree s);
        if tmp \<noteq> NULL then do {
          key \<leftarrow> rd nd_key tmp (tree s);
          (L, S) \<leftarrow> add_write_action (smal H) G (g_pc s) key sz (addr - key) (g_pc s) (lib s) (shd s);
          Some (s\<lparr>lib := L, shd := S\<rparr>) }
        else Some s })"

definition helper_load :: "guest \<Rightarrow> u32 \<Rightarrow> u32 \<Rightarrow> tracer \<Rightarrow> tracer option" where
  "helper_load G addr sz s =
     (if addr < 0xC0000000 then Some s
      else do {
        tmp \<leftarrow> ds_code_rbtFind2 addr (tree s);
        if tmp \<noteq> NULL then do {
          key \<leftarrow> rd nd_key tmp (tree s);
          (L, S) \<leftarrow> add_read_action G (g_pc s) key sz (addr - key) (g_pc s) (lib s) (shd s);
          Some (s\<lparr>lib := L, shd := S\<rparr>) }
        else Some s })"

definition helper_load1 :: "guest \<Rightarrow> u32 \<Rightarrow> u32 \<Rightarrow> tracer \<Rightarrow> tracer option" where
  "helper_load1 G src sz t =
     (if src < 0xC0000000 \<or> sz \<noteq> 4 then Some t
      else do {
        s \<leftarrow> ds_code_rbtFind2 src (tree t);
        if s = NULL then Some t
        else do {
          dst \<leftarrow> read_u32 (cpu G) (mem G) src;
          d \<leftarrow> ds_code_rbtFind2 dst (tree t);
          if d = NULL then Some t
          else do {
            sn \<leftarrow> rb_heap (tree t) s;
            dn \<leftarrow> rb_heap (tree t) d;
            L \<leftarrow> add_traverse G (g_pc t) (nd_type sn) (src - nd_key sn) (nd_type dn) (dst - nd_key dn) (lib t);
            Some (t\<lparr>lib := L\<rparr>) } } })"

definition helper_store1 :: "guest \<Rightarrow> u32 \<Rightarrow> u32 \<Rightarrow> u32 \<Rightarrow> tracer \<Rightarrow> tracer option" where
  "helper_store1 G src addr sz t =
     (if src < 0xC0000000 \<or> sz \<noteq> 4 then Some t
      else do {
        s \<leftarrow> ds_code_rbtFind2 src (tree t);
        if s = NULL then Some t
        else do {
          dst \<leftarrow> read_u32 (cpu G) (mem G) addr;
          d \<leftarrow> ds_code_rbtFind2 dst (tree t);
          if d = NULL then Some t
          else do {
            sn \<leftarrow> rb_heap (tree t) s;
            dn \<leftarrow> rb_heap (tree t) d;
            Some (t\<lparr>lib := add_pointTo (g_pc t) (nd_type dn) (dst - nd_key dn) (nd_type sn) (src - nd_key sn) (lib t)\<rparr>) } } })"

section \<open>Calls\<close>

definition helper_call_handler :: "host \<Rightarrow> guest \<Rightarrow> u32 \<Rightarrow> tracer \<Rightarrow> tracer option" where
  "helper_call_handler H G pc s =
     (if pc > 0xC0000000 then do {
        (ins, target) \<leftarrow> Instrument_CALL_NEAR (xdec H) (cpu G) (mem G) (insts s) pc;
        (r, L) \<leftarrow> recover_sem_types G (tree s) target (lib s);
        Some (s\<lparr>insts := ins, lib := L\<rparr>) }
      else Some s)"

definition helper_call_handler1 :: "host \<Rightarrow> guest \<Rightarrow> u32 \<Rightarrow> tracer \<Rightarrow> tracer option" where
  "helper_call_handler1 H G pc s =
     (if pc > 0xC0000000 then do {
        (ins, target) \<leftarrow> Instrument_CALL_NEAR (xdec H) (cpu G) (mem G) (insts s) pc;
        Some (s\<lparr>insts := ins, lib := add_call_dst target (lib s)\<rparr>) }
      else Some s)"

section \<open>Interrupts\<close>

definition interrupt_enter :: "guest \<Rightarrow> u32 \<Rightarrow> tracer \<Rightarrow> tracer option" where
  "interrupt_enter G intno s =
     (if intno \<noteq> 0x80 then do {
        esp \<leftarrow> get_kernel_esp (cpu G) (mem G);
        Some (s\<lparr>lib := (lib s)\<lparr>g_interrupt_esp := add_interrupt_esp (esp AND 0xFFFFE000) esp intno (g_interrupt_esp (lib s))\<rparr>\<rparr>) }
      else Some s)"

definition interrupt_return :: "guest \<Rightarrow> tracer \<Rightarrow> tracer option" where
  "interrupt_return G s = do {
     esp \<leftarrow> get_kernel_esp (cpu G) (mem G);
     Some (s\<lparr>lib := (lib s)\<lparr>g_interrupt_esp := delete_interrupt_esp (esp AND 0xFFFFE000) (g_interrupt_esp (lib s))\<rparr>\<rparr>) }"

section \<open>Size inference\<close>

definition handle_mem_access :: "guest \<Rightarrow> nat \<Rightarrow> tracer \<Rightarrow> tracer option" where
  "handle_mem_access G i s = do {
     let xd = xedd_g (insts s);
     op_name \<leftarrow> (if i < length (xd_operands xd) then Some (xd_operands xd ! i) else None);
     (g, a) \<leftarrow> operand_is_mem (cpu G) xd (opnds s) op_name i;
     let s = s\<lparr>opnds := g\<rparr>;
     case a of
       None \<Rightarrow> Some s
     | Some addr \<Rightarrow> do {
         let sz = xd_operand_length xd i;
         p \<leftarrow> ds_code_rbtFind2 addr (tree s);
         if p = NULL then Some s
         else do {
           n \<leftarrow> rb_heap (tree s) p;
           let new = addr - nd_key n + sz + 1;
           T \<leftarrow> wr (\<lambda>n. n\<lparr>nd_size := new\<rparr>) p (tree s);
           Some (s\<lparr>tree := T, lib := update_traced_size (nd_type n) new (lib s)\<rparr>) } } }"

definition infer_size :: "host \<Rightarrow> guest \<Rightarrow> u32 \<Rightarrow> tracer \<Rightarrow> tracer option" where
  "infer_size H G pc s = do {
     let s = s\<lparr>insts := fst (decode_at (xdec H) (fetch (cpu G) (mem G) (insts s) pc pemu_inst) pemu_inst)\<rparr>;
     s \<leftarrow> handle_mem_access G 0 s;
     handle_mem_access G 1 s }"

section \<open>Start-up\<close>

text \<open>The function signatures are not loaded in the active configuration.\<close>

definition PEMU_init :: "inst_store \<Rightarrow> operand_globals \<Rightarrow> tracer" where
  "PEMU_init ins g = \<lparr>tree = rb_init, lib = libmap0, shd = taintInit2 shadow0, insts = ins, opnds = g, g_pc = 0, s_sysnum = - 1\<rparr>"

section \<open>Events\<close>

text \<open>The events of the emulator that call a hook.\<close>

datatype event =
    Hook u32 | Load u32 u32 | Store u32 u32 u32 | Load1 u32 u32 | Store1 u32 u32 u32
  | Call u32 | Call1 u32 | Interrupt u32 | Iret

fun trace_step :: "host \<Rightarrow> guest \<Rightarrow> event \<Rightarrow> tracer \<Rightarrow> tracer option" where
  "trace_step H G (Hook pc) s = helper_hook H G pc s"
| "trace_step H G (Load a sz) s = helper_load G a sz s"
| "trace_step H G (Store v a sz) s = helper_store H G v a sz s"
| "trace_step H G (Load1 a sz) s = helper_load1 G a sz s"
| "trace_step H G (Store1 v a sz) s = helper_store1 G v a sz s"
| "trace_step H G (Call pc) s = helper_call_handler H G pc s"
| "trace_step H G (Call1 pc) s = helper_call_handler1 H G pc s"
| "trace_step H G (Interrupt n) s = interrupt_enter G n s"
| "trace_step H G Iret s = interrupt_return G s"

section \<open>The translator's hooks\<close>

text \<open>
  The calls that the translation of a load or a store puts before the access. The code of an access is
  the operand type plus the MMU index in the upper bits.
\<close>

datatype OT = OT_BYTE | OT_WORD | OT_LONG | OT_QUAD

definition OT_code :: "OT \<Rightarrow> u32" where
  "OT_code ot = (case ot of OT_BYTE \<Rightarrow> 0 | OT_WORD \<Rightarrow> 1 | OT_LONG \<Rightarrow> 2 | OT_QUAD \<Rightarrow> 3)"

definition HF_CPL_MASK :: u32 where "HF_CPL_MASK = 3"
definition HF_SMAP_MASK :: u32 where "HF_SMAP_MASK = 0x800000"
definition MMU_KERNEL_IDX :: u32 where "MMU_KERNEL_IDX = 0"
definition MMU_USER_IDX :: u32 where "MMU_USER_IDX = 1"
definition MMU_KSMAP_IDX :: u32 where "MMU_KSMAP_IDX = 2"

definition cpu_mmu_index :: "CPUX86State \<Rightarrow> u32" where
  "cpu_mmu_index env =
     (if hflags env AND HF_CPL_MASK = 3 then MMU_USER_IDX
      else if hflags env AND HF_SMAP_MASK \<noteq> 0 \<and> eflags env AND AC_MASK \<noteq> 0 then MMU_KSMAP_IDX
      else MMU_KERNEL_IDX)"

definition dc_mem_index :: "CPUX86State \<Rightarrow> u32" where
  "dc_mem_index env = push_bit 2 (cpu_mmu_index env + 1)"

text \<open>The sum binds tighter than the mask.\<close>

definition hook_size :: "u32 \<Rightarrow> u32" where
  "hook_size idx = idx AND (3 + 1)"

definition gen_op_lds_T0_A0_hooks :: "u32 \<Rightarrow> u32 \<Rightarrow> u32 \<Rightarrow> event list" where
  "gen_op_lds_T0_A0_hooks g_disas_pc idx A0 =
     (if g_disas_pc \<ge> 0xC0000000 then [Load A0 (hook_size idx)] else []) @
     (if g_disas_pc \<ge> 0xC0000000 then [Load1 A0 (hook_size idx)] else [])"

definition gen_op_ld_v_hooks :: "u32 \<Rightarrow> u32 \<Rightarrow> u32 \<Rightarrow> event list" where
  "gen_op_ld_v_hooks g_disas_pc idx a0 =
     (if g_disas_pc \<ge> 0xC0000000 then [Load a0 (hook_size idx)] else []) @
     (if g_disas_pc \<ge> 0xC0000000 then [Load1 a0 (hook_size idx)] else [])"

definition gen_op_st_v_hooks :: "u32 \<Rightarrow> u32 \<Rightarrow> u32 \<Rightarrow> u32 \<Rightarrow> event list" where
  "gen_op_st_v_hooks g_disas_pc idx t0 a0 =
     (if g_disas_pc \<ge> 0xC0000000 then [Store t0 a0 (hook_size idx)] else []) @
     (if g_disas_pc \<ge> 0xC0000000 then [Store1 t0 a0 (hook_size idx)] else [])"

end
