(* ===== verification/TracerProps.thy ===== *)
theory TracerProps
  imports Tracer
begin

text \<open>
  What the hooks keep and what they record: the invariant that ties the object tree to the
  instances of the data base, its preservation by every hook, the absence of failed asserts in the
  access hooks, and the life of an object from its allocation to the report written when it is
  freed.
\<close>

section \<open>Lookups through the tree\<close>

lemma find2_cases:
  assumes "store_ok T"
  obtains "ds_code_rbtFind2 k T = Some NULL" "found_at k T = None"
  | p n where "ds_code_rbtFind2 k T = Some p" "p \<noteq> NULL" "rb_heap T p = Some n"
    "found_at k T = Some (core (payload_of n))"
proof -
  obtain t where t: "rep T t" using assms by (auto simp: store_ok_def)
  show thesis
  proof (cases "find2_t k t")
    case None
    then show thesis using that(1) find2_rep [OF t, of k] found_at_rep [OF t, of k] by simp
  next
    case (Some q)
    obtain a d where q: "q = (a, d)" by (cases q)
    then obtain n where "rb_heap T (Nd a) = Some n" "payload_of n = d"
      using rep_node [OF t conjunct1 [OF find2_t_sound]] Some by blast
    then show thesis using that(2) [of "Nd a" n] find2_rep [OF t, of k] found_at_rep [OF t, of k] Some q by simp
  qed
qed

lemma found_own:
  assumes "store_ok T" "d \<in> set (objs T)" "contains d (o_key d)"
  shows "found_at (o_key d) T \<noteq> None"
proof -
  obtain t where t: "rep T t" using assms(1) by (auto simp: store_ok_def)
  then obtain a e where e: "(a, e) \<in> set (inord t)" "d = core e"
    using assms(2) by (auto simp: objs_rep [OF t] cores_def)
  then have "find2_t (o_key e) t \<noteq> None"
    using find2_t_own [of t a e] t assms(3) by (simp add: rep_def)
  then show ?thesis using e(2) by (simp add: found_at_rep [OF t])
qed

lemma contains_own: "contains d k \<Longrightarrow> contains d (o_key d)"
  by (auto simp: contains_def in_range_def)

section \<open>The invariant\<close>

text \<open>Every object a lookup can return has an instance.\<close>

definition tracked :: "rbstate \<Rightarrow> libmap \<Rightarrow> bool" where
  "tracked T L \<longleftrightarrow> (\<forall>d \<in> set (objs T). contains d (o_key d) \<longrightarrow> o_key d \<in> dom (g_instances L))"

definition tracer_ok :: "(string \<Rightarrow> size_t) \<Rightarrow> tracer \<Rightarrow> bool" where
  "tracer_ok hf s \<longleftrightarrow> store_ok (tree s) \<and> lib_ok hf (lib s) \<and> shadow_ok (shd s) \<and> tracked (tree s) (lib s)"

definition host_ok :: "host \<Rightarrow> bool" where
  "host_ok H \<longleftrightarrow> malloc_ok (rbmal H) \<and> sm_malloc_ok (smal H) \<and> sm_malloc_total (smal H)"

lemma tracer_okD:
  assumes "tracer_ok hf s"
  shows "store_ok (tree s)" "lib_ok hf (lib s)" "shadow_ok (shd s)" "tracked (tree s) (lib s)"
  using assms by (simp_all add: tracer_ok_def)

lemma tracked_found:
  assumes "tracer_ok hf s" "found_at k (tree s) = Some d"
  shows "o_key d \<in> dom (g_instances (lib s))" "contains d k"
proof -
  have d: "d \<in> set (objs (tree s))" "contains d k"
    using rbx.look_sound [OF tracer_okD(1) [OF assms(1)] assms(2)] by auto
  then show "o_key d \<in> dom (g_instances (lib s))" "contains d k"
    using tracer_okD(4) [OF assms(1)] contains_own by (auto simp: tracked_def)
qed

lemma tracked_mono:
  "tracked T L \<Longrightarrow> set (objs T') \<subseteq> set (objs T) \<Longrightarrow> dom (g_instances L) \<subseteq> dom (g_instances L') \<Longrightarrow> tracked T' L'"
  unfolding tracked_def by blast

lemma shed_set: "shed k xs ys \<Longrightarrow> set ys \<subseteq> set xs"
  by (auto simp: shed_def)

section \<open>Allocation\<close>

definition payload_for :: "guest \<Rightarrow> u32 \<Rightarrow> u32 \<Rightarrow> string \<Rightarrow> string \<Rightarrow> u32 \<Rightarrow> payload" where
  "payload_for G addr sz cs name pc = \<lparr>o_key = addr, o_size = sz, o_type = hash_fn G cs, o_pc = pc, o_name = name\<rparr>"

lemma store_add_eq: "rbtInsert2 mal (o_key d) (o_size d) (node_of d) T = store_add mal d T"
  by (simp add: store_add_def)

lemma hash_callstack_delete [simp]: "hash_callstack G (delete_obj pc L) = hash_callstack G L"
  by (simp add: hash_callstack_def callstack_of_def delete_obj_def fun_eq_iff)

lemma add_obj_result:
  assumes "add_obj H G addr sz name pc s = Some s'"
  obtains cs L S where "callstack_of G (lib s) pc = Some cs" "length name < 30"
    "store_add (rbmal H) (payload_for G addr sz cs name pc) (tree s) = Some (RBT_STATUS_OK, tree s')"
    "set_createSys G (g_pc s) (s_sysnum s) (hash_fn G cs) pc sz name (delete_obj pc (lib s)) = Some L"
    "lib s' = add_instance (hash_fn G cs) addr L"
    "set_mem_taint_bysize2 (smal H) addr 0 sz (shd s) = Some (shd s')"
    "g_pc s' = g_pc s" "insts s' = insts s"
  using assms
  by (auto simp: add_obj_def ds_code_all_insert_rb_def hash_callstack_def Let_def strcpy_into_def
      payload_for_def store_add_def node_of_def split: bind_splits if_splits prod.splits)

lemma delete_obj_ok: "lib_ok hf L \<Longrightarrow> lib_ok hf (delete_obj pc L)"
  by (simp add: lib_ok_def delete_obj_def)

lemma add_obj_state:
  assumes ok: "tracer_ok (hash_fn G) s" and host: "host_ok H" and r: "add_obj H G addr sz name pc s = Some s'"
  shows "tracer_ok (hash_fn G) s'"
    and "flat (shd s') = (\<lambda>b. if b - addr < sz then 0 else flat (shd s) b)"
    and "\<exists>cs. callstack_of G (lib s) pc = Some cs \<and>
      store_add (rbmal H) (payload_for G addr sz cs name pc) (tree s) = Some (RBT_STATUS_OK, tree s') \<and>
      g_instances (lib s') = (g_instances (lib s))(addr \<mapsto> \<lparr>inst_type = hash_fn G cs, inst_pset = Some {}\<rparr>)"
    and "g_obj (lib s') = (g_obj (lib s))(pc := None)" "g_interrupt_esp (lib s') = g_interrupt_esp (lib s)"
    and "g_pc s' = g_pc s"
proof -
  note h = host [unfolded host_ok_def]
  obtain cs L where 1: "callstack_of G (lib s) pc = Some cs"
    "store_add (rbmal H) (payload_for G addr sz cs name pc) (tree s) = Some (RBT_STATUS_OK, tree s')"
    "set_createSys G (g_pc s) (s_sysnum s) (hash_fn G cs) pc sz name (delete_obj pc (lib s)) = Some L"
    "lib s' = add_instance (hash_fn G cs) addr L"
    "set_mem_taint_bysize2 (smal H) addr 0 sz (shd s) = Some (shd s')" "g_pc s' = g_pc s"
    using add_obj_result [OF r] by metis
  note fr = set_createSys_frame [OF 1(3)]
  have S: "shadow_ok (shd s')" "flat (shd s') = (\<lambda>b. if b - addr < sz then 0 else flat (shd s) b)"
    using bysize_loop_ok [OF tracer_okD(3) [OF ok], of "smal H" addr 0 sz 0] h 1(5)
    by (auto simp: set_mem_taint_bysize2_def)
  have inst: "g_instances (lib s') = (g_instances (lib s))(addr \<mapsto> \<lparr>inst_type = hash_fn G cs, inst_pset = Some {}\<rparr>)"
    using fr(1) by (simp add: 1(4) add_instance_def delete_obj_def)
  have lib: "lib_ok (hash_fn G) (lib s')"
    unfolding 1(4) by (intro add_instance_ok set_createSys_ok [OF _ 1(3)] delete_obj_ok tracer_okD(2) [OF ok])
  obtain us vs where o: "shed addr (objs (tree s)) (us @ vs)"
    "objs (tree s') = us @ core (payload_for G addr sz cs name pc) # vs"
    using store_add_ok(2) [OF tracer_okD(1) [OF ok] _ 1(2)] h by (auto simp: payload_for_def)
  have "tracked (tree s') (lib s')"
    using tracer_okD(4) [OF ok] shed_set [OF o(1)] unfolding tracked_def o(2) inst by (auto simp: payload_for_def)
  moreover have "store_ok (tree s')" using store_add_ok(1) [OF tracer_okD(1) [OF ok] _ 1(2)] h by blast
  ultimately show "tracer_ok (hash_fn G) s'" using lib S(1) by (simp add: tracer_ok_def)
  show "flat (shd s') = (\<lambda>b. if b - addr < sz then 0 else flat (shd s) b)" by (rule S(2))
  show "\<exists>cs. callstack_of G (lib s) pc = Some cs \<and>
      store_add (rbmal H) (payload_for G addr sz cs name pc) (tree s) = Some (RBT_STATUS_OK, tree s') \<and>
      g_instances (lib s') = (g_instances (lib s))(addr \<mapsto> \<lparr>inst_type = hash_fn G cs, inst_pset = Some {}\<rparr>)"
    using 1(1,2) inst by blast
  show "g_obj (lib s') = (g_obj (lib s))(pc := None)" using fr(2) by (simp add: 1(4) add_instance_def delete_obj_def)
  show "g_interrupt_esp (lib s') = g_interrupt_esp (lib s)" using fr(3) by (simp add: 1(4) add_instance_def delete_obj_def)
  show "g_pc s' = g_pc s" by (rule 1(6))
qed

lemma alloc_entry_state:
  assumes "tracer_ok hf s" "alloc_entry G args s = Some s'"
  shows "tracer_ok hf s'"
  using assms by (auto simp: alloc_entry_def tracer_ok_def tracked_def lib_ok_def insert_obj_def split: bind_splits prod.splits)

section \<open>Deletion\<close>

lemma all_delete_total:
  assumes "store_ok (tree s)"
  shows "\<exists>T. all_delete addr s = Some (s\<lparr>tree := T\<rparr>) \<and> store_ok T \<and> shed addr (objs (tree s)) (objs T) \<and>
    found_at addr T = None \<and> (found_at addr (tree s) = None \<longrightarrow> T = tree s)"
  using rbx.rem_law [OF assms, of addr] by (auto simp: all_delete_def)

lemma all_delete_state:
  assumes "tracer_ok hf s" "all_delete addr s = Some s'"
  shows "tracer_ok hf s'"
proof -
  obtain T where T: "s' = s\<lparr>tree := T\<rparr>" "store_ok T" "shed addr (objs (tree s)) (objs T)"
    using all_delete_total [OF tracer_okD(1) [OF assms(1)], of addr] assms(2) by auto
  then show ?thesis using assms(1) tracked_mono [OF tracer_okD(4) [OF assms(1)] shed_set [OF T(3)]] by (simp add: tracer_ok_def)
qed

lemma delete_at_state:
  assumes ok: "tracer_ok (hash_fn G) s" and r: "delete_at G addr s = Some s'"
  shows "tracer_ok (hash_fn G) s'"
proof (cases rule: find2_cases [OF tracer_okD(1) [OF ok], of addr])
  case 1
  then show ?thesis using r all_delete_state [OF ok] by (simp add: delete_at_def)
next
  case (2 p n)
  then obtain L where L: "delete_instance G (g_pc s) addr (lib s) = Some L" "all_delete addr (s\<lparr>lib := L\<rparr>) = Some s'"
    using r by (auto simp: delete_at_def split: bind_splits)
  then obtain i where i: "g_instances (lib s) addr = Some i" using delete_instance_absent by (metis option.exhaust option.distinct(1))
  obtain cs where "callstack_of G (lib s) (g_pc s) = Some cs"
    using L(1) i by (auto simp: delete_instance_def callstack_of_def Let_def split: bind_splits)
  then have L': "lib_ok (hash_fn G) L" "g_instances L = (g_instances (lib s))(addr := None)"
    using delete_instance_ok [OF tracer_okD(2) [OF ok] i, of "g_pc s" cs] L(1) by auto
  obtain T where T: "s' = s\<lparr>lib := L, tree := T\<rparr>" "store_ok T" "shed addr (objs (tree s)) (objs T)" "found_at addr T = None"
    using all_delete_total [of "s\<lparr>lib := L\<rparr>" addr] tracer_okD(1) [OF ok] L(2) by auto
  have "o_key d \<in> dom (g_instances L)" if "d \<in> set (objs T)" "contains d (o_key d)" for d
  proof -
    have "o_key d \<noteq> addr" using found_own [OF T(2) that] T(4) by auto
    moreover have "o_key d \<in> dom (g_instances (lib s))"
      using tracer_okD(4) [OF ok] shed_set [OF T(3)] that unfolding tracked_def by blast
    ultimately show ?thesis by (simp add: L'(2))
  qed
  then show ?thesis using T L'(1) ok by (simp add: tracer_ok_def tracked_def)
qed

lemma trace_delete_state:
  "tracer_ok (hash_fn G) s \<Longrightarrow> trace_delete G pc s = Some s' \<Longrightarrow> tracer_ok (hash_fn G) s'"
  by (auto simp: trace_delete_def intro: delete_at_state split: if_splits bind_splits)

lemma object_called_state:
  assumes "tracer_ok hf s" "object_called G pc s = Some s'"
  shows "tracer_ok hf s'"
  using assms(2) alloc_entry_state [OF assms(1)] all_delete_state [OF assms(1)] assms(1) unfolding object_called_def
  by (auto split: if_splits bind_splits)

lemma object_hook_state:
  assumes ok: "tracer_ok (hash_fn G) s" and host: "host_ok H" and r: "object_hook H G pc s = Some s'"
  shows "tracer_ok (hash_fn G) s'"
proof -
  obtain s1 where s1: "object_returned H G pc s = Some s1" "object_called G pc s1 = Some s'"
    using r by (auto simp: object_hook_def split: bind_splits)
  have "tracer_ok (hash_fn G) s1"
    using s1(1) add_obj_state(1) [OF ok host] ok unfolding object_returned_def
    by (auto split: bind_splits if_splits)
  then show ?thesis using object_called_state s1(2) by blast
qed

lemma helper_hook_state:
  assumes "tracer_ok (hash_fn G) s" "host_ok H" "helper_hook H G pc s = Some s'"
  shows "tracer_ok (hash_fn G) s'"
proof (cases "pc < KERNEL_ADDR_MIN")
  case False
  then obtain s1 where "trace_delete G pc (s\<lparr>g_pc := pc\<rparr>) = Some s1" "object_hook H G pc s1 = Some s'"
    using assms(3) by (auto simp: helper_hook_def Let_def split: bind_splits)
  moreover have "tracer_ok (hash_fn G) (s\<lparr>g_pc := pc\<rparr>)" using assms(1) by (simp add: tracer_ok_def)
  ultimately show ?thesis using trace_delete_state object_hook_state [OF _ assms(2)] by blast
qed (use assms in \<open>simp add: helper_hook_def\<close>)

section \<open>Accesses\<close>

text \<open>What one access hook does to an address inside an object.\<close>

lemma found_node:
  assumes "tracer_ok hf s" "found_at addr (tree s) = Some d"
  obtains p n where "ds_code_rbtFind2 addr (tree s) = Some p" "p \<noteq> NULL" "rb_heap (tree s) p = Some n"
    "nd_key n = o_key d" "nd_type n = o_type d"
  using assms(2)
  by (cases rule: find2_cases [OF tracer_okD(1) [OF assms(1)], of addr]) (auto simp: payload_of_def core_def)

lemma helper_store_found:
  assumes ok: "tracer_ok (hash_fn G) s" and host: "host_ok H" and d: "found_at addr (tree s) = Some d"
    and a: "0xC0000000 \<le> addr" and cs: "callstack_of G (lib s) (g_pc s) = Some cs"
  shows "\<exists>L S. helper_store H G v addr sz s = Some (s\<lparr>lib := L, shd := S\<rparr>) \<and> tracer_ok (hash_fn G) (s\<lparr>lib := L, shd := S\<rparr>) \<and>
    add_write_action (smal H) G (g_pc s) (o_key d) sz (addr - o_key d) (g_pc s) (lib s) (shd s) = Some (L, S) \<and>
    flat S = (\<lambda>b. if b - addr < sz then 1 else flat (shd s) b) \<and> g_interrupt_esp L = g_interrupt_esp (lib s)"
proof -
  obtain i where i: "g_instances (lib s) (o_key d) = Some i" using tracked_found(1) [OF ok d] by blast
  obtain L S where L: "add_write_action (smal H) G (g_pc s) (o_key d) sz (addr - o_key d) (g_pc s) (lib s) (shd s) = Some (L, S)"
    "lib_ok (hash_fn G) L" "shadow_ok S" "flat S = (\<lambda>b. if b - (o_key d + (addr - o_key d)) < sz then 1 else flat (shd s) b)"
    "dom (g_instances L) = dom (g_instances (lib s))" "g_interrupt_esp L = g_interrupt_esp (lib s)"
    using add_write_action_ok [OF tracer_okD(2,3) [OF ok] _ _ i cs, of "smal H" sz "addr - o_key d" "g_pc s"] host
    unfolding host_ok_def by blast
  obtain p n where "ds_code_rbtFind2 addr (tree s) = Some p" "p \<noteq> NULL" "rb_heap (tree s) p = Some n" "nd_key n = o_key d"
    using found_node [OF ok d] by metis
  then have "helper_store H G v addr sz s = Some (s\<lparr>lib := L, shd := S\<rparr>)"
    using a L(1) by (simp add: helper_store_def rd_def)
  moreover have "tracer_ok (hash_fn G) (s\<lparr>lib := L, shd := S\<rparr>)"
    using ok L(2,3,5) by (simp add: tracer_ok_def tracked_def)
  ultimately show ?thesis using L by simp
qed

lemma helper_load_found:
  assumes ok: "tracer_ok (hash_fn G) s" and d: "found_at addr (tree s) = Some d"
    and a: "0xC0000000 \<le> addr" and cs: "callstack_of G (lib s) (g_pc s) = Some cs"
  shows "\<exists>L. helper_load G addr sz s = Some (s\<lparr>lib := L\<rparr>) \<and> tracer_ok (hash_fn G) (s\<lparr>lib := L\<rparr>) \<and>
    add_read_action G (g_pc s) (o_key d) sz (addr - o_key d) (g_pc s) (lib s) (shd s) = Some (L, shd s)"
proof -
  obtain i where i: "g_instances (lib s) (o_key d) = Some i" using tracked_found(1) [OF ok d] by blast
  obtain L where L: "add_read_action G (g_pc s) (o_key d) sz (addr - o_key d) (g_pc s) (lib s) (shd s) = Some (L, shd s)"
    "lib_ok (hash_fn G) L" "dom (g_instances L) = dom (g_instances (lib s))"
    using add_read_action_ok [OF tracer_okD(2,3) [OF ok] i cs, of sz "addr - o_key d" "g_pc s"] by blast
  obtain p n where "ds_code_rbtFind2 addr (tree s) = Some p" "p \<noteq> NULL" "rb_heap (tree s) p = Some n" "nd_key n = o_key d"
    using found_node [OF ok d] by metis
  then have "helper_load G addr sz s = Some (s\<lparr>lib := L\<rparr>)"
    using a L(1) by (simp add: helper_load_def rd_def)
  moreover have "tracer_ok (hash_fn G) (s\<lparr>lib := L\<rparr>)"
    using ok L(2,3) by (simp add: tracer_ok_def tracked_def)
  ultimately show ?thesis using L by simp
qed

lemma access_not_found:
  assumes "tracer_ok hf s" "found_at addr (tree s) = None \<or> addr < 0xC0000000"
  shows "helper_store H G v addr sz s = Some s" "helper_load G addr sz s = Some s"
  using assms(2)
  by (cases rule: find2_cases [OF tracer_okD(1) [OF assms(1)], of addr];
      auto simp: helper_store_def helper_load_def)+

lemma access_callstack:
  assumes "found_at addr (tree s) = Some d" "0xC0000000 \<le> addr" "tracer_ok hf s"
  shows "helper_store H G v addr sz s = Some s' \<Longrightarrow> callstack_of G (lib s) (g_pc s) \<noteq> None"
    and "helper_load G addr sz s = Some s' \<Longrightarrow> callstack_of G (lib s) (g_pc s) \<noteq> None"
  using found_node [OF assms(3,1)] assms(2)
  by (auto simp: helper_store_def helper_load_def add_write_action_def add_read_action_def rd_def
      split: bind_splits if_splits)

lemma helper_store_state:
  assumes "tracer_ok (hash_fn G) s" "host_ok H" "helper_store H G v addr sz s = Some s'"
  shows "tracer_ok (hash_fn G) s'"
proof (cases "found_at addr (tree s) = None \<or> addr < 0xC0000000")
  case True
  then show ?thesis using access_not_found(1) [OF assms(1) True] assms by simp
next
  case False
  then obtain d where d: "found_at addr (tree s) = Some d" "0xC0000000 \<le> addr" by (auto simp: not_less)
  obtain cs where "callstack_of G (lib s) (g_pc s) = Some cs"
    using access_callstack(1) [OF d assms(1,3)] by blast
  from helper_store_found [OF assms(1,2) d this, of v sz] show ?thesis using assms(3) by auto
qed

lemma helper_load_state:
  assumes "tracer_ok (hash_fn G) s" "helper_load G addr sz s = Some s'"
  shows "tracer_ok (hash_fn G) s'"
proof (cases "found_at addr (tree s) = None \<or> addr < 0xC0000000")
  case True
  then show ?thesis using access_not_found(2) [OF assms(1) True] assms by simp
next
  case False
  then obtain d where d: "found_at addr (tree s) = Some d" "0xC0000000 \<le> addr" by (auto simp: not_less)
  obtain cs where "callstack_of G (lib s) (g_pc s) = Some cs"
    using access_callstack(2) [OF d assms(1,2)] by blast
  from helper_load_found [OF assms(1) d this, of sz] show ?thesis using assms(2) by auto
qed

section \<open>The other hooks\<close>

text \<open>They leave the tree, the shadow memory and the set of instances as they are.\<close>

definition lib_frame :: "(string \<Rightarrow> size_t) \<Rightarrow> libmap \<Rightarrow> libmap \<Rightarrow> bool" where
  "lib_frame hf L L' \<longleftrightarrow> (lib_ok hf L \<longrightarrow> lib_ok hf L') \<and> g_instances L' = g_instances L"

lemma lib_frame_ok: "tracer_ok hf s \<Longrightarrow> lib_frame hf (lib s) L \<Longrightarrow> tracer_ok hf (s\<lparr>lib := L\<rparr>)"
  by (simp add: tracer_ok_def lib_frame_def tracked_def)

lemma lib_frame_refl [simp]: "lib_frame hf L L"
  by (simp add: lib_frame_def)

lemma lib_frame_trans: "lib_frame hf L M \<Longrightarrow> lib_frame hf M N \<Longrightarrow> lib_frame hf L N"
  by (simp add: lib_frame_def)

lemma frame_relations:
  "lib_frame hf L (add_pointTo pc a b c d L)" "lib_frame hf L (add_call_dst t L)"
  "add_traverse G pc a b c d L = Some L' \<Longrightarrow> lib_frame hf L L'"
  by (auto simp: lib_frame_def lib_ok_def add_pointTo_def add_call_dst_def add_traverse_def split: bind_splits)

lemma frame_sem_type: "lib_frame hf L (add_sem_type ty off nm L)"
  by (auto simp: lib_frame_def lib_ok_def add_sem_type_def omap_put_ok split: option.splits)

lemma frame_sem_args: "sem_args T ps as ix L = Some L' \<Longrightarrow> lib_frame hf L L'"
proof (induction as arbitrary: ix L)
  case (Cons a as)
  from Cons.prems consider "sem_args T ps as (ix + arg_size a) L = Some L'"
    | n :: NodeType where "sem_args T ps as (ix + arg_size a) (add_sem_type (nd_type n) (ps ! ix - nd_key n) (arg_type a) L) = Some L'"
    by (auto split: if_splits bind_splits)
  then show ?case
  proof cases
    case 1
    then show ?thesis by (rule Cons.IH)
  next
    case (2 n)
    show ?thesis by (rule lib_frame_trans [OF frame_sem_type Cons.IH [OF 2]])
  qed
qed simp

lemma frame_recover: "recover_sem_types G T pc L = Some (r, L') \<Longrightarrow> lib_frame hf L L'"
  by (auto simp: recover_sem_types_def intro: frame_sem_args split: option.splits bind_splits)

lemma frame_interrupts:
  "lib_frame hf L (L\<lparr>g_interrupt_esp := add_interrupt_esp k x n (g_interrupt_esp L)\<rparr>)"
  "lib_frame hf L (L\<lparr>g_interrupt_esp := delete_interrupt_esp k (g_interrupt_esp L)\<rparr>)"
  by (simp_all add: lib_frame_def lib_ok_def esp_ok_add esp_ok_delete)

lemma insts_ok: "tracer_ok hf (s\<lparr>insts := x, lib := L\<rparr>) = tracer_ok hf (s\<lparr>lib := L\<rparr>)"
  by (simp add: tracer_ok_def)

lemma relation_hooks_state:
  assumes "tracer_ok hf s"
  shows "helper_load1 G a sz s = Some s' \<Longrightarrow> tracer_ok hf s'"
    and "helper_store1 G v a sz s = Some s' \<Longrightarrow> tracer_ok hf s'"
  using assms
  by (auto simp: helper_load1_def helper_store1_def intro: lib_frame_ok frame_relations split: if_splits bind_splits)

lemma call_hooks_state:
  assumes "tracer_ok hf s"
  shows "helper_call_handler H G pc s = Some s' \<Longrightarrow> tracer_ok hf s'"
    and "helper_call_handler1 H G pc s = Some s' \<Longrightarrow> tracer_ok hf s'"
  using assms lib_frame_ok [OF assms frame_recover] lib_frame_ok [OF assms frame_relations(2)]
  by (auto simp: helper_call_handler_def helper_call_handler1_def insts_ok split: if_splits bind_splits prod.splits)

lemma interrupt_hooks_state:
  assumes "tracer_ok hf s"
  shows "interrupt_enter G n s = Some s' \<Longrightarrow> tracer_ok hf s'"
    and "interrupt_return G s = Some s' \<Longrightarrow> tracer_ok hf s'"
  using assms lib_frame_ok [OF assms frame_interrupts(1)] lib_frame_ok [OF assms frame_interrupts(2)]
  by (auto simp: interrupt_enter_def interrupt_return_def split: if_splits bind_splits)

section \<open>Runs of the tracer\<close>

inductive trace_reach :: "host \<Rightarrow> (string \<Rightarrow> size_t) \<Rightarrow> tracer \<Rightarrow> bool" for H hf where
  trace_start: "trace_reach H hf (PEMU_init ins g)"
| trace_event: "trace_reach H hf s \<Longrightarrow> hash_fn G = hf \<Longrightarrow> trace_step H G e s = Some s' \<Longrightarrow> trace_reach H hf s'"

lemma trace_step_state:
  assumes "tracer_ok (hash_fn G) s" "host_ok H" "trace_step H G e s = Some s'"
  shows "tracer_ok (hash_fn G) s'"
  using assms(3) helper_hook_state [OF assms(1,2)] helper_load_state [OF assms(1)] helper_store_state [OF assms(1,2)]
    relation_hooks_state [OF assms(1)] call_hooks_state [OF assms(1)] interrupt_hooks_state [OF assms(1)]
  by (cases e) auto

lemma init_tracer_ok: "tracer_ok hf (PEMU_init ins g)"
proof -
  have "objs rb_init = []" using objs_rep [OF rep_init] by (simp add: cores_def)
  moreover have "store_ok rb_init" using rep_init by (auto simp: store_ok_def)
  ultimately show ?thesis
    using libmap0_ok [of hf] init_shadow_ok by (simp add: tracer_ok_def PEMU_init_def tracked_def taintInit2_def)
qed

lemma trace_reach_ok: "trace_reach H hf s \<Longrightarrow> host_ok H \<Longrightarrow> tracer_ok hf s"
proof (induction rule: trace_reach.induct)
  case (trace_event s G e s')
  then show ?case using trace_step_state [of G s H e s'] by simp
qed (rule init_tracer_ok)

section \<open>An allocation from entry to return\<close>

lemma in_range_offset:
  assumes "proper_range a n"
  shows "in_range a n k \<longleftrightarrow> k - a < n"
proof
  assume "in_range a n k"
  then have "unat a \<le> unat k" "unat k < unat a + unat n" using in_range_unat [OF assms] by auto
  then show "k - a < n" by (simp add: word_less_nat_alt unat_sub word_le_nat_alt)
next
  assume l: "k - a < n"
  have "unat k = unat a + unat (k - a)"
  proof -
    have "unat (a + (k - a)) = unat a + unat (k - a)"
      using l assms by (subst unat_add_lem [THEN iffD1]) (auto simp: proper_range_def word_less_nat_alt)
    then show ?thesis by simp
  qed
  then show "in_range a n k" using l by (simp add: in_range_unat [OF assms] word_less_nat_alt)
qed

lemma add_obj_total:
  assumes ok: "tracer_ok (hash_fn G) s" and host: "host_ok H" "malloc_total (rbmal H)"
    and pr: "all_proper (objs (tree s))" and cs: "callstack_of G (lib s) pc = Some cs" "callstack_of G (lib s) (g_pc s) = Some cs'"
    and nm: "length name < 30"
  shows "\<exists>s'. add_obj H G addr sz name pc s = Some s'"
proof -
  let ?d = "payload_for G addr sz cs name pc"
  note h = host(1) [unfolded host_ok_def]
  obtain code T where T: "store_add (rbmal H) ?d (tree s) = Some (code, T)"
    using rbx.add_total [OF tracer_okD(1) [OF ok], of "rbmal H" ?d] h host(2) by blast
  have "code = RBT_STATUS_OK"
    using rbx.add_status [OF tracer_okD(1) [OF ok] _ pr T] h host(2) by blast
  then have T': "rbtInsert2 (rbmal H) addr sz (node_of ?d) (tree s) = Some (RBT_STATUS_OK, T)"
    using T by (simp add: store_add_def payload_for_def)
  obtain L where L: "set_createSys G (g_pc s) (s_sysnum s) (hash_fn G cs) pc sz name (delete_obj pc (lib s)) = Some L"
    using set_createSys_total [of G "delete_obj pc (lib s)" "g_pc s" cs' "s_sysnum s" "hash_fn G cs" pc sz name] cs(2)
    by (auto simp: callstack_of_def delete_obj_def)
  obtain S where "set_mem_taint_bysize2 (smal H) addr 0 sz (shd s) = Some S"
    using bysize_loop_ok [OF tracer_okD(3) [OF ok], of "smal H" addr 0 sz 0] h by (auto simp: set_mem_taint_bysize2_def)
  with L T' nm cs(1) show ?thesis
    by (simp add: add_obj_def ds_code_all_insert_rb_def hash_callstack_def strcpy_into_def Let_def payload_for_def node_of_def)
qed

text \<open>A kernel address where none of the allocator's functions begins.\<close>

definition plain_pc :: "u32 \<Rightarrow> bool" where
  "plain_pc pc \<longleftrightarrow> KERNEL_ADDR_MIN \<le> pc \<and> pc \<notin> {KMEM_CACHE_ALLOC, KMEM_CACHE_ALLOC_TRACE, KMALLOC, KMALLOC_TRACK_CALLER,
     VMALLOC_NODE_FLAGS, KMEM_CACHE_FREE, KFREE, VFREE}"

lemma get_reg_gp [simp]:
  "PEMU_get_reg env XED_REG_EAX = Some (regs env 0)" "PEMU_get_reg env XED_REG_EDX = Some (regs env 2)"
  by (simp_all add: PEMU_get_reg_def regmap0_def regmapping_length XED_REG_defs xed_regmapping_def arr_def
      CPU_NB_REGS_def R_defs nth_append)

lemma kmalloc_entry:
  assumes "g_obj (lib s) KMALLOC = None" "read_u32 (cpu G) (mem G) (regs (cpu G) 4) = Some ret"
  shows "helper_hook H G KMALLOC s =
    Some (s\<lparr>g_pc := KMALLOC, lib := insert_obj ret 0 (regs (cpu G) 0) ''kmalloc-XX'' (lib s)\<rparr>)"
  using assms
  by (simp add: helper_hook_def trace_delete_def object_hook_def object_returned_def object_called_def get_obj_def
      alloc_entry_def get_kmalloc_args_def kernel_defs)

lemma plain_return:
  assumes "plain_pc pc" "g_obj (lib s) pc = Some e" "length (e_name e) < 50"
  shows "helper_hook H G pc s = add_obj H G (regs (cpu G) 0) (e_size e) (e_name e) pc (s\<lparr>g_pc := pc\<rparr>)"
proof -
  have "trace_delete G pc t = Some t" "object_called G pc t = Some t" for t
    using assms(1) by (simp_all add: plain_pc_def trace_delete_def object_called_def)
  moreover have "\<not> pc < KERNEL_ADDR_MIN" using assms(1) by (simp add: plain_pc_def not_less)
  ultimately show ?thesis
    using assms(2,3) by (simp add: helper_hook_def object_hook_def object_returned_def get_obj_def get_name_def get_size_def
        strcpy_into_def)
qed

lemma found_after_add_obj:
  assumes ok: "tracer_ok (hash_fn G) s" and host: "host_ok H" "malloc_total (rbmal H)" and r: "add_obj H G addr sz name pc s = Some s'"
    and no: "no_overlap (objs (tree s))" "all_proper (objs (tree s))"
    and pr: "proper_range addr sz" and ap: "\<forall>e \<in> set (objs (tree s)). in_range addr sz (o_key e) \<longrightarrow> o_key e = addr"
    and cs: "callstack_of G (lib s) pc = Some cs" and k: "in_range addr sz k"
  shows "found_at k (tree s') = Some (core (payload_for G addr sz cs name pc))"
proof -
  let ?d = "payload_for G addr sz cs name pc"
  have c: "contains ?d j \<longleftrightarrow> in_range addr sz j" for j by (simp add: contains_def payload_for_def)
  have add: "store_add (rbmal H) ?d (tree s) = Some (RBT_STATUS_OK, tree s')"
    using add_obj_state(3) [OF ok host(1) r] cs by auto
  have "\<forall>e \<in> set (objs (tree s)). contains ?d (o_key e) \<longrightarrow> o_key e = o_key ?d"
    using ap unfolding c by (simp add: payload_for_def)
  moreover have "contains ?d (o_key ?d)"
    using proper_range_self [OF pr] unfolding c by (simp add: payload_for_def)
  moreover have "malloc_ok (rbmal H) \<and> malloc_total (rbmal H)" using host by (simp add: host_ok_def)
  ultimately obtain s1 where "store_add (rbmal H) ?d (tree s) = Some (RBT_STATUS_OK, s1)"
    "\<forall>k. found_at k s1 = (if contains ?d k then Some (core ?d)
      else case found_at k (tree s) of Some e \<Rightarrow> (if contains e (o_key ?d) then None else Some e) | None \<Rightarrow> None)"
    using rbx.look_after_add [OF tracer_okD(1) [OF ok] _ no] by blast
  then show ?thesis using add k unfolding c by simp
qed

lemma kmalloc_run:
  assumes ok: "tracer_ok (hash_fn G) s" and host: "host_ok H" "malloc_total (rbmal H)" and hf: "hash_fn G' = hash_fn G"
    and entry: "g_obj (lib s) KMALLOC = None" "read_u32 (cpu G) (mem G) (regs (cpu G) 4) = Some ret"
    and ret: "plain_pc ret" "callstack_of G' (lib s) ret = Some cs"
    and no: "no_overlap (objs (tree s))" "all_proper (objs (tree s))"
    and pr: "proper_range (regs (cpu G') 0) (regs (cpu G) 0)"
      "\<forall>e \<in> set (objs (tree s)). in_range (regs (cpu G') 0) (regs (cpu G) 0) (o_key e) \<longrightarrow> o_key e = regs (cpu G') 0"
  shows "\<exists>s1 s2. helper_hook H G KMALLOC s = Some s1 \<and> helper_hook H G' ret s1 = Some s2 \<and> tracer_ok (hash_fn G) s2 \<and>
    (\<forall>k. in_range (regs (cpu G') 0) (regs (cpu G) 0) k \<longrightarrow>
       found_at k (tree s2) = Some (core (payload_for G' (regs (cpu G') 0) (regs (cpu G) 0) cs ''kmalloc-XX'' ret)) \<and> flat (shd s2) k = 0) \<and>
    g_instances (lib s2) = (g_instances (lib s))(regs (cpu G') 0 \<mapsto> \<lparr>inst_type = hash_fn G' cs, inst_pset = Some {}\<rparr>) \<and>
    g_pc s2 = ret \<and> g_interrupt_esp (lib s2) = g_interrupt_esp (lib s)"
proof -
  let ?a = "regs (cpu G') 0" and ?z = "regs (cpu G) 0"
  define s1 where "s1 = s\<lparr>g_pc := KMALLOC, lib := insert_obj ret 0 ?z ''kmalloc-XX'' (lib s)\<rparr>"
  define t where "t = s1\<lparr>g_pc := ret\<rparr>"
  have t: "tree t = tree s" "g_pc t = ret" "callstack_of G' (lib t) = callstack_of G' (lib s)" "g_instances (lib t) = g_instances (lib s)" "g_interrupt_esp (lib t) = g_interrupt_esp (lib s)"
    by (simp_all add: t_def s1_def callstack_of_def insert_obj_def fun_eq_iff)
  have h1: "helper_hook H G KMALLOC s = Some s1" unfolding s1_def by (rule kmalloc_entry [OF entry])
  have h2: "helper_hook H G' ret s1 = add_obj H G' ?a ?z ''kmalloc-XX'' ret t"
    using plain_return [OF ret(1), of s1 "\<lparr>e_name = ''kmalloc-XX'', e_size = ?z, e_addr = 0\<rparr>" H G']
    by (simp add: t_def s1_def insert_obj_def)
  have okt: "tracer_ok (hash_fn G') t"
    using ok hf by (simp add: t_def s1_def tracer_ok_def lib_ok_def tracked_def insert_obj_def)
  obtain s2 where s2: "add_obj H G' ?a ?z ''kmalloc-XX'' ret t = Some s2"
    using add_obj_total [OF okt host, of ret cs cs "''kmalloc-XX''" ?a ?z] no(2) ret(2) by (auto simp: t)
  note st = add_obj_state [OF okt host(1) s2]
  have f: "found_at k (tree s2) = Some (core (payload_for G' ?a ?z cs ''kmalloc-XX'' ret))" if "in_range ?a ?z k" for k
    by (rule found_after_add_obj [OF okt host s2 _ _ pr(1) _ _ that]) (use no pr(2) ret(2) in \<open>simp_all add: t\<close>)
  have "flat (shd s2) k = 0" if "in_range ?a ?z k" for k
    using that by (simp add: st(2) in_range_offset [OF pr(1)])
  moreover have "g_instances (lib s2) = (g_instances (lib s))(?a \<mapsto> \<lparr>inst_type = hash_fn G' cs, inst_pset = Some {}\<rparr>)"
    using st(3) ret(2) by (auto simp: t)
  ultimately show ?thesis using h1 h2 s2 st(1,5,6) f t hf by auto
qed

section \<open>A run\<close>

definition demo_host :: host where
  "demo_host = \<lparr>rbmal = first_free, smal = sm_first_free, xdec = \<lambda>_. (XED_ERROR_NONE, test_inst XED_OPERAND_RELBR 0)\<rparr>"

definition demo_hash :: "string \<Rightarrow> size_t" where
  "demo_hash s = of_nat (length s)"

definition demo_guest :: "u32 \<Rightarrow> u32 \<Rightarrow> guest" where
  "demo_guest eax ret = \<lparr>cpu = (stack_env 0xC0100F00 0)\<lparr>regs := (\<lambda>_. 0)(0 := eax, 4 := 0xC0100F00)\<rparr>,
     mem = word_ram [(0xC0100F00, ret)], hash_fn = demo_hash\<rparr>"

definition demo_init :: tracer where
  "demo_init = PEMU_init test_insts test_globals"

lemma demo_guest_hash [simp]: "hash_fn (demo_guest a b) = demo_hash"
  by (simp add: demo_guest_def)

lemma demo_host_ok: "host_ok demo_host" "malloc_total (rbmal demo_host)"
  by (simp_all add: host_ok_def demo_host_def first_free_ok first_free_total sm_first_free_ok sm_first_free_total)

lemma demo_callstack:
  assumes "\<not> HARD_CODE_SCHED1 pc" "g_interrupt_esp L = Map.empty"
  shows "callstack_of (demo_guest a r) L pc = Some (int_to_string pc)"
proof -
  let ?env = "cpu (demo_guest a r)"
  have b: "stack_base ?env = 0xC0100000" "regs ?env 5 = 0"
    by (simp_all add: stack_base_def demo_guest_def)
  have "stack_top Map.empty (stack_base ?env) = (0xC0102000, - 1)" by (simp add: stack_top_def b STACK_SIZE_def)
  moreover have "frame_chain ?env (mem (demo_guest a r)) (stack_base ?env) 0xC0102000 (regs ?env 5) []"
    unfolding b by (rule chain_out) code_simp
  ultimately have "get_callstack_ebp ?env (mem (demo_guest a r)) Map.empty pc = Some (callstack_text (- 1) (rev []) pc)"
    by (rule get_callstack_chain [OF esp_ok_empty assms(1)])
  then show ?thesis by (simp add: callstack_of_def assms(2) callstack_text_def)
qed

lemma demo_init_facts:
  "objs (tree demo_init) = []" "g_obj (lib demo_init) = Map.empty" "g_interrupt_esp (lib demo_init) = Map.empty"
  "g_instances (lib demo_init) = Map.empty"
  using objs_rep [OF rep_init] by (simp_all add: demo_init_def PEMU_init_def libmap0_def cores_def)

lemma demo_read: "read_u32 (cpu (demo_guest 64 0xC1000100)) (mem (demo_guest 64 0xC1000100)) 0xC0100F00 = Some 0xC1000100"
  by code_simp

lemma demo_cpu [simp]: "regs (cpu (demo_guest a r)) 0 = a" "regs (cpu (demo_guest a r)) 4 = 0xC0100F00"
  by (simp_all add: demo_guest_def)

lemma demo_ret: "plain_pc 0xC1000100" "\<not> HARD_CODE_SCHED1 0xC1000100" "proper_range 0xC5000000 64"
  by (simp_all add: plain_pc_def kernel_defs config_defs proper_range_def)

text \<open>A kernel object of 64 bytes at \<open>0xC5000000\<close>, allocated by \<open>__kmalloc\<close>.\<close>

lemma demo_object:
  "\<exists>s. trace_reach demo_host demo_hash s \<and> tracer_ok demo_hash s \<and>
    found_at 0xC5000010 (tree s) = Some (core (payload_for (demo_guest 0 0) 0xC5000000 64 (int_to_string 0xC1000100) ''kmalloc-XX'' 0xC1000100)) \<and>
    found_at 0xC5000000 (tree s) = Some (core (payload_for (demo_guest 0 0) 0xC5000000 64 (int_to_string 0xC1000100) ''kmalloc-XX'' 0xC1000100)) \<and>
    g_instances (lib s) 0xC5000000 = Some \<lparr>inst_type = demo_hash (int_to_string 0xC1000100), inst_pset = Some {}\<rparr> \<and>
    g_instances (lib s) 0xC5000010 = None \<and> flat (shd s) 0xC5000010 = 0 \<and> g_pc s = 0xC1000100 \<and> g_interrupt_esp (lib s) = Map.empty"
proof -
  let ?G = "demo_guest 64 0xC1000100" and ?G' = "demo_guest 0xC5000000 0"
  have "\<exists>s1 s2. helper_hook demo_host ?G KMALLOC demo_init = Some s1 \<and> helper_hook demo_host ?G' 0xC1000100 s1 = Some s2 \<and>
    tracer_ok (hash_fn ?G) s2 \<and>
    (\<forall>k. in_range (regs (cpu ?G') 0) (regs (cpu ?G) 0) k \<longrightarrow>
       found_at k (tree s2) = Some (core (payload_for ?G' (regs (cpu ?G') 0) (regs (cpu ?G) 0) (int_to_string 0xC1000100) ''kmalloc-XX'' 0xC1000100)) \<and>
       flat (shd s2) k = 0) \<and>
    g_instances (lib s2) = (g_instances (lib demo_init))(regs (cpu ?G') 0 \<mapsto> \<lparr>inst_type = hash_fn ?G' (int_to_string 0xC1000100), inst_pset = Some {}\<rparr>) \<and>
    g_pc s2 = 0xC1000100 \<and> g_interrupt_esp (lib s2) = g_interrupt_esp (lib demo_init)"
    by (rule kmalloc_run)
      (simp_all add: demo_host_ok demo_init_facts demo_read demo_ret demo_callstack no_overlap_def all_proper_def,
       simp add: demo_init_def init_tracer_ok)
  then obtain s1 s2 where s: "helper_hook demo_host ?G KMALLOC demo_init = Some s1" "helper_hook demo_host ?G' 0xC1000100 s1 = Some s2"
    "tracer_ok demo_hash s2"
    "\<And>k. in_range 0xC5000000 64 k \<Longrightarrow> found_at k (tree s2) = Some (core (payload_for ?G' 0xC5000000 64 (int_to_string 0xC1000100) ''kmalloc-XX'' 0xC1000100)) \<and>
       flat (shd s2) k = 0"
    "g_instances (lib s2) 0xC5000000 = Some \<lparr>inst_type = demo_hash (int_to_string 0xC1000100), inst_pset = Some {}\<rparr>" "g_instances (lib s2) 0xC5000010 = None"
    "g_pc s2 = 0xC1000100" "g_interrupt_esp (lib s2) = Map.empty"
    by (auto simp: demo_init_facts)
  have "trace_reach demo_host demo_hash demo_init" unfolding demo_init_def by (rule trace_start)
  then have "trace_reach demo_host demo_hash s1" by (rule trace_event [where G = ?G and e = "Hook KMALLOC"]) (simp_all add: s(1))
  then have "trace_reach demo_host demo_hash s2" by (rule trace_event [where G = ?G' and e = "Hook 0xC1000100"]) (simp_all add: s(2))
  moreover have "payload_for ?G' = payload_for (demo_guest 0 0)" by (simp add: payload_for_def fun_eq_iff)
  moreover have "in_range 0xC5000000 64 0xC5000010" "in_range 0xC5000000 64 0xC5000000" by (simp_all add: in_range_def)
  ultimately show ?thesis using s by (intro exI [of _ s2]) (simp only: simp_thms)
qed

section \<open>Freeing\<close>

lemma all_delete_again: "store_ok (tree s) \<Longrightarrow> found_at addr (tree s) = None \<Longrightarrow> all_delete addr s = Some s"
  using all_delete_total [of s addr] by auto

lemma kfree_hook:
  assumes "g_obj (lib s) KFREE = None"
    and "\<And>s1. delete_at G (regs (cpu G) 0) (s\<lparr>g_pc := KFREE\<rparr>) = Some s1 \<Longrightarrow> g_obj (lib s1) KFREE = None"
  shows "helper_hook H G KFREE s =
    Option.bind (delete_at G (regs (cpu G) 0) (s\<lparr>g_pc := KFREE\<rparr>)) (all_delete (regs (cpu G) 0))"
  using assms
  by (cases "delete_at G (regs (cpu G) 0) (s\<lparr>g_pc := KFREE\<rparr>)")
    (simp_all add: helper_hook_def trace_delete_def object_hook_def object_returned_def object_called_def get_obj_def kernel_defs)

lemma delete_at_report:
  assumes ok: "tracer_ok (hash_fn G) s" and d: "found_at addr (tree s) = Some d"
    and i: "g_instances (lib s) addr = Some i" "inst_pset i = Some ps" and cs: "callstack_of G (lib s) (g_pc s) = Some cs"
  shows "\<exists>s'. delete_at G addr s = Some s' \<and> store_ok (tree s') \<and> found_at addr (tree s') = None \<and>
    output_file1 (lib s') = output_file1 (lib s) @ [(inst_type i, ps)] \<and>
    g_instances (lib s') = (g_instances (lib s))(addr := None) \<and> g_obj (lib s') = g_obj (lib s)"
proof -
  obtain L where L: "delete_instance G (g_pc s) addr (lib s) = Some L" "g_instances L = (g_instances (lib s))(addr := None)"
    "g_obj L = g_obj (lib s)"
    using delete_instance_ok [OF tracer_okD(2) [OF ok] i(1) cs] by blast
  have o: "output_file1 L = output_file1 (lib s) @ [(inst_type i, ps)]"
    using L(1) i by (auto simp: delete_instance_def Let_def split: bind_splits if_splits)
  obtain p where p: "ds_code_rbtFind2 addr (tree s) = Some p" "p \<noteq> NULL" using found_node [OF ok d] by metis
  obtain T where "all_delete addr (s\<lparr>lib := L\<rparr>) = Some (s\<lparr>lib := L, tree := T\<rparr>)" "store_ok T" "found_at addr T = None"
    using all_delete_total [of "s\<lparr>lib := L\<rparr>" addr] tracer_okD(1) [OF ok] by auto
  then show ?thesis using p L o by (simp add: delete_at_def)
qed

section \<open>Properties\<close>

text \<open>
  C2: In every state that the tracer can reach from start-up, through any sequence of hooks and
  interrupts, the tree is a well-formed search tree, the shadow memory is well formed, the recorded
  call stacks are stored under their hashes, and every object that a lookup returns
  contains the address looked up and has a live instance.
\<close>

theorem tracer_invariant:
  assumes "host_ok H" "trace_reach H hf s"
  shows "store_ok (tree s) \<and> lib_ok hf (lib s) \<and> shadow_ok (shd s) \<and>
    (\<forall>k d. found_at k (tree s) = Some d \<longrightarrow> contains d k \<and> o_key d \<in> dom (g_instances (lib s)))"
  using trace_reach_ok [OF assms(2,1)] tracked_found [of hf s] by (auto simp: tracer_okD)

theorem tracer_invariant_witness:
  "\<exists>s d. trace_reach demo_host demo_hash s \<and> found_at 0xC5000010 (tree s) = Some d \<and> o_key d \<in> dom (g_instances (lib s))"
proof -
  obtain s d where s: "trace_reach demo_host demo_hash s" "found_at 0xC5000010 (tree s) = Some d"
    using demo_object by blast
  with tracer_invariant [OF demo_host_ok(1) s(1)] show ?thesis by blast
qed





text \<open>What an action adds to the instance.\<close>

lemma action_recorded:
  assumes "shadow_ok S" "callstack_of G L pc = Some cs"
  shows "add_read_action G pc a sz off func L S = Some (L', S') \<Longrightarrow> \<exists>i ps. g_instances L a = Some i \<and> inst_pset i = Some ps \<and>
      g_instances L' = (g_instances L)(a \<mapsto> i\<lparr>inst_pset := Some (insert (action_text (hash_fn G cs) (flat S (a + off)) func off) ps)\<rparr>)"
    and "add_write_action mal G pc a sz off func L S = Some (L', S') \<Longrightarrow> \<exists>i ps. g_instances L a = Some i \<and> inst_pset i = Some ps \<and>
      g_instances L' = (g_instances L)(a \<mapsto> i\<lparr>inst_pset := Some (insert (action_text (hash_fn G cs) (flat S (a + off)) func off) ps)\<rparr>)"
  using assms(2) get_flat [OF assms(1)]
  by (auto simp: add_read_action_def add_write_action_def record_action_def Let_def split: bind_splits if_splits)

text \<open>
  C10: Initialised and uninitialised reads are told apart. A store into an object followed by a load of the same
  address both record an action in the object's instance, with the call stack, the program counter and the offset in the object;
  the store's carries the mark the byte had before, the load's carries the mark of a written byte.
\<close>

theorem write_then_read:
  assumes "tracer_ok (hash_fn G) s" "host_ok H" "found_at addr (tree s) = Some d" "0xC0000000 \<le> addr"
    and "callstack_of G (lib s) (g_pc s) = Some cs" "0 < sz"
  shows "\<exists>s1 s2 i ps. helper_store H G v addr sz s = Some s1 \<and> helper_load G addr sz' s1 = Some s2 \<and>
    g_instances (lib s2) (o_key d) = Some i \<and> inst_pset i = Some ps \<and>
    action_text (hash_fn G cs) (flat (shd s) addr) (g_pc s) (addr - o_key d) \<in> ps \<and>
    action_text (hash_fn G cs) TAINTED (g_pc s) (addr - o_key d) \<in> ps"
proof -
  obtain L S where 1: "helper_store H G v addr sz s = Some (s\<lparr>lib := L, shd := S\<rparr>)" "tracer_ok (hash_fn G) (s\<lparr>lib := L, shd := S\<rparr>)"
    "add_write_action (smal H) G (g_pc s) (o_key d) sz (addr - o_key d) (g_pc s) (lib s) (shd s) = Some (L, S)"
    "flat S = (\<lambda>b. if b - addr < sz then 1 else flat (shd s) b)" "g_interrupt_esp L = g_interrupt_esp (lib s)"
    using helper_store_found [OF assms(1-5), of v sz] by blast
  let ?s1 = "s\<lparr>lib := L, shd := S\<rparr>"
  have cs1: "callstack_of G (lib ?s1) (g_pc ?s1) = Some cs" using assms(5) callstack_of_cong [OF 1(5)] by simp
  have d1: "found_at addr (tree ?s1) = Some d" using assms(3) by simp
  obtain L2 where 2: "helper_load G addr sz' ?s1 = Some (?s1\<lparr>lib := L2\<rparr>)"
    "add_read_action G (g_pc ?s1) (o_key d) sz' (addr - o_key d) (g_pc ?s1) (lib ?s1) (shd ?s1) = Some (L2, shd ?s1)"
    using helper_load_found [OF 1(2) d1 assms(4) cs1, of sz'] by blast
  have f: "flat S addr = TAINTED" using assms(6) by (simp add: 1(4) TAINTED_def)
  obtain i ps where w: "g_instances L (o_key d) = Some i" "inst_pset i = Some ps"
    "action_text (hash_fn G cs) (flat (shd s) addr) (g_pc s) (addr - o_key d) \<in> ps"
    using action_recorded(2) [OF tracer_okD(3) [OF assms(1)] assms(5) 1(3)] by auto
  obtain i' ps' where r: "g_instances L (o_key d) = Some i'" "inst_pset i' = Some ps'"
    "g_instances L2 = (g_instances L)(o_key d \<mapsto> i'\<lparr>inst_pset := Some (insert (action_text (hash_fn G cs) (flat S addr) (g_pc s) (addr - o_key d)) ps')\<rparr>)"
    using action_recorded(1) [OF tracer_okD(3) [OF 1(2)] cs1 2(2)] by auto
  show ?thesis using 1(1) 2(1) w r by (simp add: f)
qed

theorem write_then_read_witness:
  "\<exists>s s1 s2 i ps. helper_store demo_host (demo_guest 0 0) 7 0xC5000010 4 s = Some s1 \<and> helper_load (demo_guest 0 0) 0xC5000010 4 s1 = Some s2 \<and>
     g_instances (lib s2) 0xC5000000 = Some i \<and> inst_pset i = Some ps \<and>
     action_text (demo_hash (int_to_string 0xC1000100)) UNTAINTED 0xC1000100 0x10 \<in> ps \<and>
     action_text (demo_hash (int_to_string 0xC1000100)) TAINTED 0xC1000100 0x10 \<in> ps"
proof -
  let ?d = "core (payload_for (demo_guest 0 0) 0xC5000000 64 (int_to_string 0xC1000100) ''kmalloc-XX'' 0xC1000100)"
  obtain s where s: "tracer_ok (hash_fn (demo_guest 0 0)) s" "found_at 0xC5000010 (tree s) = Some ?d"
    "g_pc s = 0xC1000100" "g_interrupt_esp (lib s) = Map.empty" "flat (shd s) 0xC5000010 = 0"
    using demo_object by auto
  have cs: "callstack_of (demo_guest 0 0) (lib s) (g_pc s) = Some (int_to_string 0xC1000100)"
    using demo_callstack [OF demo_ret(2) s(4)] s(3) by simp
  have "(0xC0000000::u32) \<le> 0xC5000010" "(0::u32) < 4" by simp_all
  from write_then_read [OF s(1) demo_host_ok(1) s(2) this(1) cs this(2), of 7 4]
  show ?thesis by (rule_tac x = s in exI) (simp add: s(3,5) payload_for_def UNTAINTED_def)
qed





text \<open>
  C40: The size that the translator passes to the access hooks is 4 for every access of kernel code, whatever the
  operand size: the C expression masks the operand-type and MMU-index code with 4. So a one-byte store marks the three bytes
  behind it as written as well.
\<close>

theorem access_size_constant:
  assumes "cpu_mmu_index env \<noteq> MMU_USER_IDX" "0xC0000000 \<le> pc"
  shows "gen_op_ld_v_hooks pc (OT_code ot + dc_mem_index env) a = [Load a 4, Load1 a 4] \<and>
    gen_op_st_v_hooks pc (OT_code ot + dc_mem_index env) v a = [Store v a 4, Store1 v a 4]"
proof -
  have "hook_size (OT_code ot + dc_mem_index env) = 4"
    using assms(1)
    by (cases ot) (auto simp: hook_size_def OT_code_def dc_mem_index_def cpu_mmu_index_def MMU_KERNEL_IDX_def MMU_USER_IDX_def
        MMU_KSMAP_IDX_def)
  then show ?thesis using assms(2) by (simp add: gen_op_ld_v_hooks_def gen_op_st_v_hooks_def)
qed

theorem access_size_constant_witness:
  "gen_op_st_v_hooks 0xC1000100 (OT_code OT_BYTE + dc_mem_index (stack_env 0xC0100F00 0)) 7 0xC5000010 =
     [Store 7 0xC5000010 4, Store1 7 0xC5000010 4]"
  using access_size_constant [of "stack_env 0xC0100F00 0" "0xC1000100" OT_BYTE "0xC5000010" 7]
  by (simp add: cpu_mmu_index_def stack_env_def MMU_KERNEL_IDX_def MMU_USER_IDX_def)

end
