(* ===== verification/TaintRegs.thy ===== *)
theory TaintRegs
  imports ShadowMem GuestCpu
begin

text \<open>
  The register half of \<open>taint2.c\<close>; its memory half is the code of \<open>shadow_mem.c\<close>, repeated. A
  register of the decoder's enumeration is always a valid index of the two register arrays, so they
  are total functions. Writing a full register also writes its parts; writing a part leaves the full
  register alone.
\<close>

section \<open>State and operations\<close>

record taint2 =
  t2_mem :: shadow
  regTaint :: "xed_reg \<Rightarrow> u32"
  FDregTaint :: "xed_reg \<Rightarrow> u32"

definition regUntainted :: "taint2 \<Rightarrow> taint2" where
  "regUntainted s = s\<lparr>regTaint := (\<lambda>_. UNTAINTED)\<rparr>"

definition regUntainted_fd :: "taint2 \<Rightarrow> taint2" where
  "regUntainted_fd s = s\<lparr>FDregTaint := (\<lambda>_. UNTAINTED)\<rparr>"

definition get_reg_taint2 :: "xed_reg \<Rightarrow> taint2 \<Rightarrow> u32" where
  "get_reg_taint2 reg s = regTaint s reg"

definition get_reg_taint_fd2 :: "xed_reg \<Rightarrow> taint2 \<Rightarrow> u32" where
  "get_reg_taint_fd2 reg s = FDregTaint s reg"

definition set_reg_taint2 :: "xed_reg \<Rightarrow> u32 \<Rightarrow> taint2 \<Rightarrow> taint2" where
  "set_reg_taint2 reg bytes s =
     (let r = (regTaint s)(reg := bytes) in
      s\<lparr>regTaint :=
        (if reg = XED_REG_EAX then r(XED_REG_AX := bytes, XED_REG_AH := bytes, XED_REG_AL := bytes)
         else if reg = XED_REG_EBX then r(XED_REG_BX := bytes, XED_REG_BH := bytes, XED_REG_BL := bytes)
         else if reg = XED_REG_ECX then r(XED_REG_CX := bytes, XED_REG_CH := bytes, XED_REG_CL := bytes)
         else if reg = XED_REG_EDX then r(XED_REG_DX := bytes, XED_REG_DH := bytes, XED_REG_DL := bytes)
         else if reg = XED_REG_ESI then r(XED_REG_SI := bytes)
         else if reg = XED_REG_EDI then r(XED_REG_DI := bytes)
         else r)\<rparr>)"

definition set_reg_taint_fd2 :: "xed_reg \<Rightarrow> u32 \<Rightarrow> taint2 \<Rightarrow> taint2" where
  "set_reg_taint_fd2 reg bytes s =
     (let r = (FDregTaint s)(reg := bytes) in
      s\<lparr>FDregTaint :=
        (if reg = XED_REG_EAX then r(XED_REG_AX := bytes, XED_REG_AH := bytes, XED_REG_AL := bytes)
         else if reg = XED_REG_EBX then r(XED_REG_BX := bytes, XED_REG_BH := bytes, XED_REG_BL := bytes)
         else if reg = XED_REG_ECX then r(XED_REG_CX := bytes, XED_REG_CH := bytes, XED_REG_CL := bytes)
         else if reg = XED_REG_EDX then r(XED_REG_DX := bytes, XED_REG_DH := bytes, XED_REG_DL := bytes)
         else r)\<rparr>)"

definition t2_taintInit2 :: "taint2 \<Rightarrow> taint2" where
  "t2_taintInit2 s = regUntainted_fd (regUntainted (s\<lparr>t2_mem := init_shadow_memory (t2_mem s)\<rparr>))"

text \<open>The memory operations on the whole state.\<close>

definition t2_get_mem :: "u32 \<Rightarrow> taint2 \<Rightarrow> u32 option" where
  "t2_get_mem a s = get_mem_taint2 a (t2_mem s)"

definition t2_set_mem :: "(shadow \<Rightarrow> nat option) \<Rightarrow> u32 \<Rightarrow> u32 \<Rightarrow> taint2 \<Rightarrow> taint2 option" where
  "t2_set_mem mal a v s = do { m \<leftarrow> set_mem_taint2 mal a v (t2_mem s); Some (s\<lparr>t2_mem := m\<rparr>) }"

definition t2_set_mem_bysize :: "(shadow \<Rightarrow> nat option) \<Rightarrow> u32 \<Rightarrow> u32 \<Rightarrow> u32 \<Rightarrow> taint2 \<Rightarrow> taint2 option" where
  "t2_set_mem_bysize mal a v n s = do { m \<leftarrow> set_mem_taint_bysize2 mal a v n (t2_mem s); Some (s\<lparr>t2_mem := m\<rparr>) }"

section \<open>Full registers and their parts\<close>

definition parts :: "xed_reg \<Rightarrow> xed_reg list" where
  "parts r =
     (if r = XED_REG_EAX then [XED_REG_AX, XED_REG_AH, XED_REG_AL]
      else if r = XED_REG_EBX then [XED_REG_BX, XED_REG_BH, XED_REG_BL]
      else if r = XED_REG_ECX then [XED_REG_CX, XED_REG_CH, XED_REG_CL]
      else if r = XED_REG_EDX then [XED_REG_DX, XED_REG_DH, XED_REG_DL]
      else if r = XED_REG_ESI then [XED_REG_SI]
      else if r = XED_REG_EDI then [XED_REG_DI]
      else [])"

definition put_all :: "xed_reg list \<Rightarrow> u32 \<Rightarrow> (xed_reg \<Rightarrow> u32) \<Rightarrow> xed_reg \<Rightarrow> u32" where
  "put_all qs v f = (\<lambda>q. if q \<in> set qs then v else f q)"

lemma put_all_simps: "put_all [] v f = f" "put_all (q # qs) v f = put_all qs v (f(q := v))"
  by (auto simp: put_all_def fun_eq_iff)

lemma set_reg_taint2_parts: "set_reg_taint2 r v s = s\<lparr>regTaint := put_all (r # parts r) v (regTaint s)\<rparr>"
  unfolding set_reg_taint2_def parts_def Let_def by (simp only: put_all_simps if_distrib [of "\<lambda>qs. put_all qs _ _"])

lemma set_reg_taint2_get:
  "get_reg_taint2 q (set_reg_taint2 r v s) = (if q = r \<or> q \<in> set (parts r) then v else get_reg_taint2 q s)"
  by (simp add: get_reg_taint2_def set_reg_taint2_parts put_all_def)

lemma set_reg_taint2_frame [simp]:
  "t2_mem (set_reg_taint2 r v s) = t2_mem s" "FDregTaint (set_reg_taint2 r v s) = FDregTaint s"
  by (simp_all add: set_reg_taint2_parts)

section \<open>The taint store as an interface\<close>

text \<open>
  The functions \<open>taint.h\<close> declares and the instruction hooks call. The sources define them only
  under the names of \<open>taint2.c\<close> (with a 2 appended), so the hooks take them as an argument.
\<close>

record 's taint_api =
  get_mem_taint :: "u32 \<Rightarrow> 's \<Rightarrow> u32 option"
  set_mem_taint :: "u32 \<Rightarrow> u32 \<Rightarrow> 's \<Rightarrow> 's option"
  set_mem_taint_bysize :: "u32 \<Rightarrow> u32 \<Rightarrow> u32 \<Rightarrow> 's \<Rightarrow> 's option"
  get_reg_taint :: "xed_reg \<Rightarrow> 's \<Rightarrow> u32"
  set_reg_taint :: "xed_reg \<Rightarrow> u32 \<Rightarrow> 's \<Rightarrow> 's"
  taintInit :: "'s \<Rightarrow> 's"

text \<open>
  What the instruction hooks rely on: a value per memory address and per register, where writing a
  register writes a fixed set of registers with it.
\<close>

locale taint_store =
  fixes A :: "'s taint_api" and inv :: "'s \<Rightarrow> bool" and memt :: "'s \<Rightarrow> u32 \<Rightarrow> u32"
    and regt :: "'s \<Rightarrow> xed_reg \<Rightarrow> u32" and covers :: "xed_reg \<Rightarrow> xed_reg set"
  assumes get_mem: "inv s \<Longrightarrow> get_mem_taint A a s = Some (memt s a)"
    and set_mem: "inv s \<Longrightarrow> \<exists>s'. set_mem_taint A a v s = Some s' \<and> inv s' \<and> memt s' = (memt s)(a := v) \<and> regt s' = regt s"
    and set_range: "inv s \<Longrightarrow> \<exists>s'. set_mem_taint_bysize A a v n s = Some s' \<and> inv s' \<and> regt s' = regt s \<and>
      memt s' = (\<lambda>b. if b - a < n then v else memt s b)"
    and get_reg: "get_reg_taint A r s = regt s r"
    and set_reg: "inv s \<Longrightarrow> inv (set_reg_taint A r v s) \<and> memt (set_reg_taint A r v s) = memt s \<and>
      regt (set_reg_taint A r v s) = (\<lambda>q. if q = r \<or> q \<in> covers r then v else regt s q)"

definition t2_mem_taint :: "taint2 \<Rightarrow> u32 \<Rightarrow> u32" where
  "t2_mem_taint s = flat (t2_mem s)"

definition t2_ok :: "taint2 \<Rightarrow> bool" where
  "t2_ok s \<longleftrightarrow> shadow_ok (t2_mem s)"

text \<open>An allocator that is correct and finds room.\<close>

definition t2_api :: "(shadow \<Rightarrow> nat option) \<Rightarrow> taint2 taint_api" where
  "t2_api mal = \<lparr>get_mem_taint = t2_get_mem, set_mem_taint = t2_set_mem mal,
     set_mem_taint_bysize = t2_set_mem_bysize mal, get_reg_taint = get_reg_taint2,
     set_reg_taint = set_reg_taint2, taintInit = t2_taintInit2\<rparr>"

lemma t2_api_simps [simp]:
  "get_mem_taint (t2_api mal) = t2_get_mem" "set_mem_taint (t2_api mal) = t2_set_mem mal"
  "set_mem_taint_bysize (t2_api mal) = t2_set_mem_bysize mal" "get_reg_taint (t2_api mal) = get_reg_taint2"
  "set_reg_taint (t2_api mal) = set_reg_taint2" "taintInit (t2_api mal) = t2_taintInit2"
  by (simp_all add: t2_api_def)

lemma t2_store:
  assumes "sm_malloc_ok mal" "sm_malloc_total mal"
  shows "taint_store (t2_api mal) t2_ok t2_mem_taint regTaint (\<lambda>r. set (parts r))"
proof (unfold_locales, unfold t2_api_simps)
  fix s :: taint2 and a v n r
  assume s: "t2_ok s"
  then have m: "shadow_ok (t2_mem s)" by (simp add: t2_ok_def)
  show "t2_get_mem a s = Some (t2_mem_taint s a)" by (simp add: t2_get_mem_def t2_mem_taint_def get_flat [OF m])
  have "mal (t2_mem s) \<noteq> None" using assms(2) shadow_finite [OF m] by (auto simp: sm_malloc_total_def)
  then show "\<exists>s'. t2_set_mem mal a v s = Some s' \<and> t2_ok s' \<and> t2_mem_taint s' = (t2_mem_taint s)(a := v) \<and> regTaint s' = regTaint s"
    using set_mem_taint2_ok [OF m assms(1), of a v] by (auto simp: t2_set_mem_def t2_mem_taint_def t2_ok_def)
  show "\<exists>s'. t2_set_mem_bysize mal a v n s = Some s' \<and> t2_ok s' \<and> regTaint s' = regTaint s \<and>
      t2_mem_taint s' = (\<lambda>b. if b - a < n then v else t2_mem_taint s b)"
    using bysize_loop_ok [OF m assms, of a v n 0]
    by (auto simp: t2_set_mem_bysize_def set_mem_taint_bysize2_def t2_mem_taint_def t2_ok_def fun_eq_iff)
  have "regTaint (set_reg_taint2 r v s) q = (if q = r \<or> q \<in> set (parts r) then v else regTaint s q)" for q
    using set_reg_taint2_get [of q r v s] by (simp add: get_reg_taint2_def)
  then show "t2_ok (set_reg_taint2 r v s) \<and> t2_mem_taint (set_reg_taint2 r v s) = t2_mem_taint s \<and>
      regTaint (set_reg_taint2 r v s) = (\<lambda>q. if q = r \<or> q \<in> set (parts r) then v else regTaint s q)"
    using s by (auto simp: t2_ok_def t2_mem_taint_def)
qed (simp add: get_reg_taint2_def)

interpretation t2: taint_store "t2_api sm_first_free" t2_ok t2_mem_taint regTaint "\<lambda>r. set (parts r)"
  by (rule t2_store [OF sm_first_free_ok sm_first_free_total])

end
