(* ===== verification/CcHelper.thy ===== *)
theory CcHelper
  imports GuestCpu
begin

text \<open>
  The lazily computed condition codes of the guest CPU (\<open>target-i386/cc_helper.c\<close> and its
  template \<open>cc_helper_template.h\<close>, with \<open>lshift\<close>, \<open>cpu_compute_eflags\<close> and
  \<open>cpu_load_eflags\<close> of \<open>cpu.h\<close>). The template is instantiated in C at 8, 16 and 32 bits;
  here its functions are polymorphic in the word length, and \<open>DATA_BITS\<close> is that length.
  The operands are promoted to \<open>int\<close> in C before the bitwise operators; since every result is
  masked, working at the width of the operands gives the same bits. The 64-bit cases of the
  two switches are not compiled for this target, so they fall to the default branch, except
  where the source lists them outside the \<open>TARGET_X86_64\<close> guard.
\<close>

unbundle bit_operations_syntax

section \<open>Masks\<close>

definition IF_MASK :: u32 where "IF_MASK = 0x200"
definition DF_MASK :: u32 where "DF_MASK = 0x400"
definition RF_MASK :: u32 where "RF_MASK = 0x10000"
definition VM_MASK :: u32 where "VM_MASK = 0x20000"
definition HF_INHIBIT_IRQ_MASK :: u32 where "HF_INHIBIT_IRQ_MASK = push_bit 3 1"
definition HF_TS_MASK :: u32 where "HF_TS_MASK = push_bit 11 1"
definition CR0_TS_MASK :: u32 where "CR0_TS_MASK = push_bit 3 1"

section \<open>The flag template\<close>

definition lshift :: "u32 \<Rightarrow> int \<Rightarrow> u32" where
  "lshift x n = (if n \<ge> 0 then push_bit (nat n) x else signed_drop_bit (nat (- n)) x)"

definition parity_table :: "u32 list" where
  "parity_table =
    (let e = [CC_P, 0, 0, CC_P, 0, CC_P, CC_P, 0]; o' = [0, CC_P, CC_P, 0, CC_P, 0, 0, CC_P] in
      concat [e, o', o', e, o', e, e, o', o', e, e, o', e, o', o', e,
              o', e, e, o', e, o', o', e, e, o', o', e, o', e, e, o'])"

definition parity_flag :: "'w::len word \<Rightarrow> u32" where
  "parity_flag dst = parity_table ! unat (ucast dst :: u8)"

definition zero_flag :: "'w::len word \<Rightarrow> u32" where
  "zero_flag dst = of_bool (dst = 0) * CC_Z"

definition sign_flag :: "'w::len word \<Rightarrow> u32" where
  "sign_flag dst = lshift (ucast dst) (8 - int LENGTH('w)) AND CC_S"

definition top_to_O :: "'w::len word \<Rightarrow> u32" where
  "top_to_O x = lshift (ucast x) (12 - int LENGTH('w)) AND CC_O"

definition aux_flag :: "'w::len word \<Rightarrow> 'w word \<Rightarrow> 'w word \<Rightarrow> u32" where
  "aux_flag dst src1 src2 = ucast (dst XOR src1 XOR src2) AND CC_A"

definition SIGN_MASK :: "'w::len word" where "SIGN_MASK = push_bit (LENGTH('w) - 1) 1"

definition compute_all_add :: "'w::len word \<Rightarrow> 'w word \<Rightarrow> u32" where
  "compute_all_add dst src1 =
    (let src2 = dst - src1; cf = of_bool (dst < src1) in
      cf OR parity_flag dst OR aux_flag dst src1 src2 OR zero_flag dst OR sign_flag dst
        OR top_to_O ((src1 XOR src2 XOR - 1) AND (src1 XOR dst)))"

definition compute_c_add :: "'w::len word \<Rightarrow> 'w word \<Rightarrow> u32" where
  "compute_c_add dst src1 = of_bool (dst < src1)"

definition compute_all_adc :: "'w::len word \<Rightarrow> 'w word \<Rightarrow> 'w word \<Rightarrow> u32" where
  "compute_all_adc dst src1 src3 =
    (let src2 = dst - src1 - src3;
         cf = of_bool (if src3 \<noteq> 0 then dst \<le> src1 else dst < src1) in
      cf OR parity_flag dst OR aux_flag dst src1 src2 OR zero_flag dst OR sign_flag dst
        OR top_to_O ((src1 XOR src2 XOR - 1) AND (src1 XOR dst)))"

definition compute_c_adc :: "'w::len word \<Rightarrow> 'w word \<Rightarrow> 'w word \<Rightarrow> u32" where
  "compute_c_adc dst src1 src3 = of_bool (if src3 \<noteq> 0 then dst \<le> src1 else dst < src1)"

definition compute_all_sub :: "'w::len word \<Rightarrow> 'w word \<Rightarrow> u32" where
  "compute_all_sub dst src2 =
    (let src1 = dst + src2; cf = of_bool (src1 < src2) in
      cf OR parity_flag dst OR aux_flag dst src1 src2 OR zero_flag dst OR sign_flag dst
        OR top_to_O ((src1 XOR src2) AND (src1 XOR dst)))"

definition compute_c_sub :: "'w::len word \<Rightarrow> 'w word \<Rightarrow> u32" where
  "compute_c_sub dst src2 = (let src1 = dst + src2 in of_bool (src1 < src2))"

definition compute_all_sbb :: "'w::len word \<Rightarrow> 'w word \<Rightarrow> 'w word \<Rightarrow> u32" where
  "compute_all_sbb dst src2 src3 =
    (let src1 = dst + src2 + src3;
         cf = of_bool (if src3 \<noteq> 0 then src1 \<le> src2 else src1 < src2) in
      cf OR parity_flag dst OR aux_flag dst src1 src2 OR zero_flag dst OR sign_flag dst
        OR top_to_O ((src1 XOR src2) AND (src1 XOR dst)))"

definition compute_c_sbb :: "'w::len word \<Rightarrow> 'w word \<Rightarrow> 'w word \<Rightarrow> u32" where
  "compute_c_sbb dst src2 src3 =
    (let src1 = dst + src2 + src3 in of_bool (if src3 \<noteq> 0 then src1 \<le> src2 else src1 < src2))"

definition compute_all_logic :: "'w::len word \<Rightarrow> 'w word \<Rightarrow> u32" where
  "compute_all_logic dst src1 = parity_flag dst OR zero_flag dst OR sign_flag dst"

definition compute_all_inc :: "'w::len word \<Rightarrow> 'w word \<Rightarrow> u32" where
  "compute_all_inc dst src1 =
    (let cf = ucast src1 in
      cf OR parity_flag dst OR aux_flag dst (dst - 1) 1 OR zero_flag dst OR sign_flag dst
        OR of_bool (dst = SIGN_MASK) * CC_O)"

definition compute_all_dec :: "'w::len word \<Rightarrow> 'w word \<Rightarrow> u32" where
  "compute_all_dec dst src1 =
    (let cf = ucast src1 in
      cf OR parity_flag dst OR aux_flag dst (dst + 1) 1 OR zero_flag dst OR sign_flag dst
        OR of_bool (dst = SIGN_MASK - 1) * CC_O)"

definition compute_c_shl :: "'w::len word \<Rightarrow> 'w word \<Rightarrow> u32" where
  "compute_c_shl dst src1 = ucast (drop_bit (LENGTH('w) - 1) src1) AND CC_C"

definition compute_all_shl :: "'w::len word \<Rightarrow> 'w word \<Rightarrow> u32" where
  "compute_all_shl dst src1 =
    (let cf = ucast (drop_bit (LENGTH('w) - 1) src1) AND CC_C in
      cf OR parity_flag dst OR zero_flag dst OR sign_flag dst OR top_to_O (src1 XOR dst))"

definition compute_all_sar :: "'w::len word \<Rightarrow> 'w word \<Rightarrow> u32" where
  "compute_all_sar dst src1 =
    (let cf = ucast (src1 AND 1) in
      cf OR parity_flag dst OR zero_flag dst OR sign_flag dst OR top_to_O (src1 XOR dst))"

definition compute_all_mul :: "'w::len word \<Rightarrow> u32 \<Rightarrow> u32" where
  "compute_all_mul dst src1 =
    (let cf = of_bool (src1 \<noteq> 0) in
      cf OR parity_flag dst OR zero_flag dst OR sign_flag dst OR cf * CC_O)"

definition compute_all_bmilg :: "'w::len word \<Rightarrow> 'w word \<Rightarrow> u32" where
  "compute_all_bmilg dst src1 =
    (let cf = of_bool (src1 = 0) in cf OR zero_flag dst OR sign_flag dst)"

definition compute_c_bmilg :: "'w::len word \<Rightarrow> 'w word \<Rightarrow> u32" where
  "compute_c_bmilg dst src1 = of_bool (src1 = 0)"

section \<open>The helpers\<close>

definition compute_all_adcx :: "u32 \<Rightarrow> u32 \<Rightarrow> u32 \<Rightarrow> u32" where
  "compute_all_adcx dst src1 src2 = (src1 AND NOT CC_C) OR (dst * CC_C)"

definition compute_all_adox :: "u32 \<Rightarrow> u32 \<Rightarrow> u32 \<Rightarrow> u32" where
  "compute_all_adox dst src1 src2 = (src1 AND NOT CC_O) OR (src2 * CC_O)"

definition compute_all_adcox :: "u32 \<Rightarrow> u32 \<Rightarrow> u32 \<Rightarrow> u32" where
  "compute_all_adcox dst src1 src2 =
    (src1 AND NOT (CC_C OR CC_O)) OR (dst * CC_C) OR (src2 * CC_O)"

text \<open>
  One instance of the template function \<open>f\<close> per operand size, as the switches select it
  (\<open>at_size\<close> for functions of two operands, \<open>at_size3\<close> of three); the C call truncates the
  \<open>target_ulong\<close> arguments to \<open>DATA_TYPE\<close>.
\<close>

definition at_size :: "(u8 \<Rightarrow> u8 \<Rightarrow> u32) \<Rightarrow> (16 word \<Rightarrow> 16 word \<Rightarrow> u32) \<Rightarrow> (u32 \<Rightarrow> u32 \<Rightarrow> u32) \<Rightarrow>
    op_size \<Rightarrow> u32 \<Rightarrow> u32 \<Rightarrow> u32" where
  "at_size fb fw fl sz dst src1 = (case sz of
      SzB \<Rightarrow> fb (ucast dst) (ucast src1)
    | SzW \<Rightarrow> fw (ucast dst) (ucast src1)
    | SzL \<Rightarrow> fl dst src1
    | SzQ \<Rightarrow> 0)"

definition at_size3 :: "(u8 \<Rightarrow> u8 \<Rightarrow> u8 \<Rightarrow> u32) \<Rightarrow> (16 word \<Rightarrow> 16 word \<Rightarrow> 16 word \<Rightarrow> u32) \<Rightarrow>
    (u32 \<Rightarrow> u32 \<Rightarrow> u32 \<Rightarrow> u32) \<Rightarrow> op_size \<Rightarrow> u32 \<Rightarrow> u32 \<Rightarrow> u32 \<Rightarrow> u32" where
  "at_size3 fb fw fl sz dst src1 src2 = (case sz of
      SzB \<Rightarrow> fb (ucast dst) (ucast src1) (ucast src2)
    | SzW \<Rightarrow> fw (ucast dst) (ucast src1) (ucast src2)
    | SzL \<Rightarrow> fl dst src1 src2
    | SzQ \<Rightarrow> 0)"

definition mul_at_size :: "op_size \<Rightarrow> u32 \<Rightarrow> u32 \<Rightarrow> u32" where
  "mul_at_size sz dst src1 = (case sz of
      SzB \<Rightarrow> compute_all_mul (ucast dst :: u8) src1
    | SzW \<Rightarrow> compute_all_mul (ucast dst :: 16 word) src1
    | SzL \<Rightarrow> compute_all_mul dst src1
    | SzQ \<Rightarrow> 0)"

definition helper_cc_compute_all :: "u32 \<Rightarrow> u32 \<Rightarrow> u32 \<Rightarrow> CCOp \<Rightarrow> u32" where
  "helper_cc_compute_all dst src1 src2 op = (case op of
      CC_OP_DYNAMIC \<Rightarrow> 0
    | CC_OP_EFLAGS \<Rightarrow> src1
    | CC_OP_CLR \<Rightarrow> CC_Z
    | CC_OP_MUL sz \<Rightarrow> mul_at_size sz dst src1
    | CC_OP_ADD sz \<Rightarrow> at_size compute_all_add compute_all_add compute_all_add sz dst src1
    | CC_OP_ADC sz \<Rightarrow> at_size3 compute_all_adc compute_all_adc compute_all_adc sz dst src1 src2
    | CC_OP_SUB sz \<Rightarrow> at_size compute_all_sub compute_all_sub compute_all_sub sz dst src1
    | CC_OP_SBB sz \<Rightarrow> at_size3 compute_all_sbb compute_all_sbb compute_all_sbb sz dst src1 src2
    | CC_OP_LOGIC sz \<Rightarrow> at_size compute_all_logic compute_all_logic compute_all_logic sz dst src1
    | CC_OP_INC sz \<Rightarrow> at_size compute_all_inc compute_all_inc compute_all_inc sz dst src1
    | CC_OP_DEC sz \<Rightarrow> at_size compute_all_dec compute_all_dec compute_all_dec sz dst src1
    | CC_OP_SHL sz \<Rightarrow> at_size compute_all_shl compute_all_shl compute_all_shl sz dst src1
    | CC_OP_SAR sz \<Rightarrow> at_size compute_all_sar compute_all_sar compute_all_sar sz dst src1
    | CC_OP_BMILG sz \<Rightarrow> at_size compute_all_bmilg compute_all_bmilg compute_all_bmilg sz dst src1
    | CC_OP_ADCX \<Rightarrow> compute_all_adcx dst src1 src2
    | CC_OP_ADOX \<Rightarrow> compute_all_adox dst src1 src2
    | CC_OP_ADCOX \<Rightarrow> compute_all_adcox dst src1 src2)"

definition cpu_cc_compute_all :: "CPUX86State \<Rightarrow> CCOp \<Rightarrow> u32" where
  "cpu_cc_compute_all env op = helper_cc_compute_all (cc_dst env) (cc_src env) (cc_src2 env) op"

definition helper_cc_compute_c :: "u32 \<Rightarrow> u32 \<Rightarrow> u32 \<Rightarrow> CCOp \<Rightarrow> u32" where
  "helper_cc_compute_c dst src1 src2 op = (case op of
      CC_OP_DYNAMIC \<Rightarrow> 0
    | CC_OP_LOGIC sz \<Rightarrow> 0
    | CC_OP_CLR \<Rightarrow> 0
    | CC_OP_EFLAGS \<Rightarrow> src1 AND 1
    | CC_OP_SAR sz \<Rightarrow> src1 AND 1
    | CC_OP_ADOX \<Rightarrow> src1 AND 1
    | CC_OP_INC sz \<Rightarrow> src1
    | CC_OP_DEC sz \<Rightarrow> src1
    | CC_OP_MUL sz \<Rightarrow> of_bool (src1 \<noteq> 0)
    | CC_OP_ADCX \<Rightarrow> dst
    | CC_OP_ADCOX \<Rightarrow> dst
    | CC_OP_ADD sz \<Rightarrow> at_size compute_c_add compute_c_add compute_c_add sz dst src1
    | CC_OP_ADC sz \<Rightarrow> at_size3 compute_c_adc compute_c_adc compute_c_adc sz dst src1 src2
    | CC_OP_SUB sz \<Rightarrow> at_size compute_c_sub compute_c_sub compute_c_sub sz dst src1
    | CC_OP_SBB sz \<Rightarrow> at_size3 compute_c_sbb compute_c_sbb compute_c_sbb sz dst src1 src2
    | CC_OP_SHL sz \<Rightarrow> at_size compute_c_shl compute_c_shl compute_c_shl sz dst src1
    | CC_OP_BMILG sz \<Rightarrow> at_size compute_c_bmilg compute_c_bmilg compute_c_bmilg sz dst src1)"

definition cpu_compute_eflags :: "CPUX86State \<Rightarrow> u32" where
  "cpu_compute_eflags env = eflags env OR cpu_cc_compute_all env (cc_op env) OR (df env AND DF_MASK)"

definition cpu_load_eflags :: "CPUX86State \<Rightarrow> u32 \<Rightarrow> u32 \<Rightarrow> CPUX86State" where
  "cpu_load_eflags env ef update_mask = env\<lparr>
     cc_src := ef AND (CC_O OR CC_S OR CC_Z OR CC_A OR CC_P OR CC_C),
     df := 1 - (2 * (signed_drop_bit 10 ef AND 1)),
     eflags := (eflags env AND NOT update_mask) OR (ef AND update_mask) OR 2\<rparr>"

definition helper_write_eflags :: "CPUX86State \<Rightarrow> u32 \<Rightarrow> u32 \<Rightarrow> CPUX86State" where
  "helper_write_eflags env t0 update_mask = cpu_load_eflags env t0 update_mask"

definition helper_read_eflags :: "CPUX86State \<Rightarrow> u32" where
  "helper_read_eflags env =
    cpu_cc_compute_all env (cc_op env) OR (df env AND DF_MASK)
      OR (eflags env AND NOT (VM_MASK OR RF_MASK))"

definition helper_clts :: "CPUX86State \<Rightarrow> CPUX86State" where
  "helper_clts env = env\<lparr>cr := (cr env)(0 := cr env 0 AND NOT CR0_TS_MASK),
     hflags := hflags env AND NOT HF_TS_MASK\<rparr>"

definition helper_reset_rf :: "CPUX86State \<Rightarrow> CPUX86State" where
  "helper_reset_rf env = env\<lparr>eflags := eflags env AND NOT RF_MASK\<rparr>"

definition helper_cli :: "CPUX86State \<Rightarrow> CPUX86State" where
  "helper_cli env = env\<lparr>eflags := eflags env AND NOT IF_MASK\<rparr>"

definition helper_sti :: "CPUX86State \<Rightarrow> CPUX86State" where
  "helper_sti env = env\<lparr>eflags := eflags env OR IF_MASK\<rparr>"

definition helper_clac :: "CPUX86State \<Rightarrow> CPUX86State" where
  "helper_clac env = env\<lparr>eflags := eflags env AND NOT AC_MASK\<rparr>"

definition helper_stac :: "CPUX86State \<Rightarrow> CPUX86State" where
  "helper_stac env = env\<lparr>eflags := eflags env OR AC_MASK\<rparr>"

definition helper_set_inhibit_irq :: "CPUX86State \<Rightarrow> CPUX86State" where
  "helper_set_inhibit_irq env = env\<lparr>hflags := hflags env OR HF_INHIBIT_IRQ_MASK\<rparr>"

definition helper_reset_inhibit_irq :: "CPUX86State \<Rightarrow> CPUX86State" where
  "helper_reset_inhibit_irq env = env\<lparr>hflags := hflags env AND NOT HF_INHIBIT_IRQ_MASK\<rparr>"

section \<open>What the flags mean\<close>

definition cc_width :: "'w::len itself \<Rightarrow> bool" where
  "cc_width _ = (LENGTH('w) \<in> {8, 16, 32})"

lemma CC_exp: "CC_C = 2 ^ 0" "CC_P = 2 ^ 2" "CC_A = 2 ^ 4" "CC_Z = 2 ^ 6" "CC_S = 2 ^ 7"
  "CC_O = 2 ^ 11"
  by (simp_all add: CC_C_def CC_P_def CC_A_def CC_Z_def CC_S_def CC_O_def)

lemma flag_set:
  "f AND CC_C \<noteq> 0 \<longleftrightarrow> bit f 0" "f AND CC_P \<noteq> 0 \<longleftrightarrow> bit f 2" "f AND CC_A \<noteq> 0 \<longleftrightarrow> bit f 4"
  "f AND CC_Z \<noteq> 0 \<longleftrightarrow> bit f 6" "f AND CC_S \<noteq> 0 \<longleftrightarrow> bit f 7" "f AND CC_O \<noteq> 0 \<longleftrightarrow> bit f 11"
  unfolding CC_exp and_exp_eq_0_iff_not_bit by simp_all

lemma bit_CC:
  "bit CC_C n \<longleftrightarrow> n = 0" "bit CC_P n \<longleftrightarrow> n = 2" "bit CC_A n \<longleftrightarrow> n = 4" "bit CC_Z n \<longleftrightarrow> n = 6"
  "bit CC_S n \<longleftrightarrow> n = 7" "bit CC_O n \<longleftrightarrow> n = 11"
  by (simp_all only: CC_exp bit_exp_iff) auto

fun parities :: "nat \<Rightarrow> bool list" where
  "parities 0 = [True]"
| "parities (Suc n) = parities n @ map Not (parities n)"

lemma parities_length: "length (parities n) = 2 ^ n"
  by (induction n) auto

lemma parities_nth:
  "i < 2 ^ n \<Longrightarrow> parities n ! i = even (length (filter (bit i) [0..<n]))"
proof (induction n arbitrary: i)
  case (Suc n)
  show ?case
  proof (cases "i < 2 ^ n")
    case True
    then have "\<not> bit i n" by (simp add: bit_iff_odd)
    with True Suc.IH [of i] show ?thesis by (simp add: parities_length nth_append)
  next
    case False
    define j where "j = i - 2 ^ n"
    from False Suc.prems have j: "i = 2 ^ n + j" "j < 2 ^ n" by (simp_all add: j_def)
    have low: "filter (bit i) [0..<n] = filter (bit j) [0..<n]"
    proof (rule filter_cong)
      fix k assume k: "k \<in> set [0..<n]"
      have "take_bit n i = take_bit n j" unfolding j by (simp add: take_bit_eq_mod)
      then have "bit (take_bit n i) k = bit (take_bit n j) k" by simp
      with k show "bit i k = bit j k" by (simp add: bit_take_bit_iff)
    qed simp
    have "bit i n" using j(2) unfolding j(1) bit_iff_odd by (simp add: div_add_self1)
    with False Suc.IH [OF j(2)] show ?thesis
      by (simp add: low parities_length nth_append j_def [symmetric] j(2))
  qed
qed simp

lemma parity_table_parities: "parity_table = map (\<lambda>b. if b then CC_P else 0) (parities 8)"
  by (simp add: parity_table_def numeral_eq_Suc)

lemma parity_table_nth:
  "i < 256 \<Longrightarrow> parity_table ! i = (if even (length (filter (bit i) [0..<8])) then CC_P else 0)"
  by (simp add: parity_table_parities parities_length parities_nth del: upt_Suc)

definition even_parity :: "'w::len word \<Rightarrow> bool" where
  "even_parity x = even (length (filter (bit x) [0..<8]))"

lemma parity_flag_eq:
  assumes "cc_width TYPE('w)"
  shows "parity_flag (x :: 'w::len word) = (if even_parity x then CC_P else 0)"
proof -
  let ?b = "ucast x :: u8"
  have "unat ?b < 256" using unsigned_less [of ?b, where 'a = nat] by simp
  moreover have "filter (bit (unat ?b)) [0..<8] = filter (bit x) [0..<8]"
    using assms by (intro filter_cong) (auto simp: bit_simps cc_width_def)
  ultimately show ?thesis by (simp add: parity_flag_def parity_table_nth even_parity_def)
qed

lemma bit_parity_flag:
  assumes "cc_width TYPE('w)"
  shows "bit (parity_flag (x :: 'w::len word)) n \<longleftrightarrow> n = 2 \<and> even_parity x"
  by (simp add: parity_flag_eq [OF assms] bit_CC)

lemma bit_zero_flag: "bit (zero_flag x) n \<longleftrightarrow> n = 6 \<and> x = 0"
  by (simp add: zero_flag_def bit_CC)

lemma bit_sign_flag:
  assumes "cc_width TYPE('w)"
  shows "bit (sign_flag (x :: 'w::len word)) n \<longleftrightarrow> n = 7 \<and> sint x < 0"
  using assms
  by (auto simp: sign_flag_def bit_and_iff bit_CC lshift_def bit_signed_drop_bit_iff bit_ucast_iff
      cc_width_def simp flip: bit_last_iff)

lemma bit_top_to_O:
  assumes "cc_width TYPE('w)"
  shows "bit (top_to_O (x :: 'w::len word)) n \<longleftrightarrow> n = 11 \<and> bit x (LENGTH('w) - 1)"
  using assms
  by (auto simp: top_to_O_def bit_and_iff bit_CC lshift_def bit_signed_drop_bit_iff bit_ucast_iff
      bit_push_bit_iff cc_width_def)

lemma bit_aux_flag:
  assumes "cc_width TYPE('w)"
  shows "bit (aux_flag x y (z :: 'w::len word)) n \<longleftrightarrow> n = 4 \<and> bit (x XOR y XOR z) 4"
  using assms by (auto simp: aux_flag_def bit_simps bit_CC cc_width_def)

lemma wrap_mod:
  fixes x k :: int
  assumes "0 < k" "- k \<le> x" "x < 3 * k"
  shows "x mod (2 * k) = (if x < 0 then x + 2 * k else if x < 2 * k then x else x - 2 * k)"
proof -
  consider "x < 0" | "0 \<le> x" "x < 2 * k" | "2 * k \<le> x" by linarith
  then show ?thesis
  proof cases
    case 1
    then have "(x + 2 * k) mod (2 * k) = x + 2 * k" using assms by (intro mod_pos_pos_trivial) auto
    with 1 show ?thesis by simp
  next
    case 2
    then show ?thesis by simp
  next
    case 3
    then have "(x - 2 * k) mod (2 * k) = x - 2 * k" using assms by (intro mod_pos_pos_trivial) auto
    moreover have "(x - 2 * k) mod (2 * k) = x mod (2 * k)" by simp
    ultimately show ?thesis using 3 assms by simp
  qed
qed

lemma sint_wrap_add:
  fixes a b :: "'w::len word"
  shows "\<exists>k. 0 < k \<and> - k \<le> sint a \<and> sint a < k \<and> - k \<le> sint b \<and> sint b < k \<and>
    sint (a + b) = (if sint a + sint b < - k then sint a + sint b + 2 * k
      else if sint a + sint b < k then sint a + sint b else sint a + sint b - 2 * k)"
proof -
  define k :: int where "k = 2 ^ (LENGTH('w) - 1)"
  have k: "0 < k" "2 ^ Suc (LENGTH('w) - 1) = 2 * k" by (simp_all only: k_def power_Suc) simp
  have bnd: "- k \<le> sint c" "sint c < k" for c :: "'w word"
    using sint_greater_eq [of c] sint_lt [of c] by (simp_all add: k_def)
  have "sint (a + b) = (sint a + sint b + k) mod (2 * k) - k"
    unfolding sint_word_add signed_take_bit_eq_take_bit_shift take_bit_eq_mod k(2)
    by (simp only: k_def)
  also have "(sint a + sint b + k) mod (2 * k) = (if sint a + sint b + k < 0 then sint a + sint b + k + 2 * k
      else if sint a + sint b + k < 2 * k then sint a + sint b + k else sint a + sint b + k - 2 * k)"
    using bnd [of a] bnd [of b] by (intro wrap_mod k(1)) linarith+
  finally show ?thesis using k(1) bnd [of a] bnd [of b] by (intro exI [of _ k]) auto
qed

lemma add_overflow_sign:
  fixes a b :: "'w::len word"
  shows "sint a + sint b \<noteq> sint (a + b) \<longleftrightarrow>
    (sint a < 0 \<longleftrightarrow> sint b < 0) \<and> (sint (a + b) < 0) \<noteq> (sint a < 0)"
  using sint_wrap_add [of a b] by (elim exE conjE) (auto split: if_splits)

lemma sub_overflow_sign:
  fixes a b :: "'w::len word"
  shows "sint a - sint b \<noteq> sint (a - b) \<longleftrightarrow>
    (sint a < 0) \<noteq> (sint b < 0) \<and> (sint (a - b) < 0) \<noteq> (sint a < 0)"
  using sint_wrap_add [of "a - b" b] by (elim exE conjE) (auto split: if_splits)

lemma bit4_unat: "bit (x :: 'w::len word) 4 \<longleftrightarrow> odd (unat x div 16)"
proof -
  have "bit (unat x) 4 \<longleftrightarrow> bit x 4" by (auto simp: bit_unsigned_iff dest: bit_imp_le_length)
  then show ?thesis by (simp add: bit_iff_odd)
qed

lemma odd_div16_add:
  "odd ((m + n) div 16) \<longleftrightarrow> (odd (m div 16) \<noteq> odd (n div 16)) \<noteq> (16 \<le> m mod 16 + n mod (16::nat))"
proof -
  have "(m mod 16 + n mod 16) div 16 = of_bool (16 \<le> m mod 16 + n mod 16)"
    using mod_less_divisor [of 16 m] mod_less_divisor [of 16 n] by (auto simp: div_if)
  then show ?thesis by (auto simp: div_add1_eq [of m n])
qed

lemma odd_mod_width:
  assumes "cc_width TYPE('w::len)"
  shows "odd ((n mod 2 ^ LENGTH('w)) div 16) \<longleftrightarrow> odd (n div (16::nat))"
proof -
  have "bit (take_bit LENGTH('w) n) 4 \<longleftrightarrow> bit n 4"
    using assms by (auto simp: bit_take_bit_iff cc_width_def)
  then show ?thesis by (simp add: bit_iff_odd take_bit_eq_mod)
qed

lemma half_carry:
  fixes a b :: "'w::len word"
  assumes "cc_width TYPE('w)"
  shows "bit ((a + b) XOR a XOR b) 4 \<longleftrightarrow> 16 \<le> unat a mod 16 + unat b mod 16"
proof -
  have "unat (a + b) = (unat a + unat b) mod 2 ^ LENGTH('w)" by (simp add: unat_word_ariths)
  then have "odd (unat (a + b) div 16) \<longleftrightarrow> odd ((unat a + unat b) div 16)"
    by (simp add: odd_mod_width [OF assms])
  then show ?thesis
    unfolding bit_xor_iff unfolding bit4_unat odd_div16_add by blast
qed

lemma mod_add_less:
  fixes x y m :: nat
  assumes "x < m" "y < m"
  shows "(x + y) mod m < x \<longleftrightarrow> m \<le> x + y"
proof (cases "x + y < m")
  case False
  then have "(x + y) mod m = x + y - m" using assms by (simp add: mod_if)
  with False assms show ?thesis by auto
qed simp

lemma carry_out:
  fixes a b :: "'w::len word"
  shows "a + b < a \<longleftrightarrow> 2 ^ LENGTH('w) \<le> unat a + unat b"
  unfolding word_less_nat_alt unat_word_ariths
  by (intro mod_add_less unsigned_less)

lemma bit_top_sign:
  assumes "cc_width TYPE('w)"
  shows "bit (top_to_O (x :: 'w::len word)) n \<longleftrightarrow> n = 11 \<and> sint x < 0"
  using bit_top_to_O [OF assms, of x n] by (simp add: bit_last_iff)

lemma sint_xor_sign: "sint (x XOR y) < 0 \<longleftrightarrow> (sint x < 0) \<noteq> (sint y < 0)"
  by (simp flip: bit_last_iff add: bit_xor_iff)

lemma sint_and_sign: "sint (x AND y) < 0 \<longleftrightarrow> sint x < 0 \<and> sint y < 0"
  by (simp flip: bit_last_iff add: bit_and_iff)

lemma compute_all_add_bits:
  fixes a b :: "'w::len word"
  assumes "cc_width TYPE('w)"
  defines "f \<equiv> compute_all_add a b"
  shows "bit f 0 \<longleftrightarrow> a < b" "bit f 2 \<longleftrightarrow> even_parity a" "bit f 4 \<longleftrightarrow> bit (a XOR b XOR (a - b)) 4"
    "bit f 6 \<longleftrightarrow> a = 0" "bit f 7 \<longleftrightarrow> sint a < 0"
    "bit f 11 \<longleftrightarrow> (sint b < 0) = (sint (a - b) < 0) \<and> (sint b < 0) \<noteq> (sint a < 0)"
  unfolding f_def compute_all_add_def Let_def bit_or_iff bit_parity_flag [OF assms(1)]
    bit_sign_flag [OF assms(1)] bit_top_sign [OF assms(1)] bit_aux_flag [OF assms(1)] bit_zero_flag
    bit_of_bool_iff sint_and_sign sint_xor_sign
  by simp_all

lemma compute_all_sub_bits:
  fixes a b :: "'w::len word"
  assumes "cc_width TYPE('w)"
  defines "f \<equiv> compute_all_sub a b"
  shows "bit f 0 \<longleftrightarrow> a + b < b" "bit f 6 \<longleftrightarrow> a = 0" "bit f 7 \<longleftrightarrow> sint a < 0"
    "bit f 11 \<longleftrightarrow> (sint (a + b) < 0) \<noteq> (sint b < 0) \<and> (sint (a + b) < 0) \<noteq> (sint a < 0)"
  unfolding f_def compute_all_sub_def Let_def bit_or_iff bit_parity_flag [OF assms(1)]
    bit_sign_flag [OF assms(1)] bit_top_sign [OF assms(1)] bit_aux_flag [OF assms(1)] bit_zero_flag
    bit_of_bool_iff sint_and_sign sint_xor_sign
  by simp_all

text \<open>
  C11: after an addition the lazily computed flags are the ones the processor manual
  prescribes, at each of the three operand sizes: carry iff the unsigned sum leaves the
  width, zero, sign, overflow iff the signed sum is not the signed value of the result,
  parity of the low byte, and auxiliary carry iff the low nibbles carry.
\<close>

theorem add_flags:
  fixes a b :: "'w::len word"
  assumes "cc_width TYPE('w)"
  defines "f \<equiv> compute_all_add (a + b) a"
  shows "(f AND CC_C \<noteq> 0 \<longleftrightarrow> 2 ^ LENGTH('w) \<le> unat a + unat b)
    \<and> (f AND CC_Z \<noteq> 0 \<longleftrightarrow> a + b = 0)
    \<and> (f AND CC_S \<noteq> 0 \<longleftrightarrow> sint (a + b) < 0)
    \<and> (f AND CC_O \<noteq> 0 \<longleftrightarrow> sint a + sint b \<noteq> sint (a + b))
    \<and> (f AND CC_P \<noteq> 0 \<longleftrightarrow> even_parity (a + b))
    \<and> (f AND CC_A \<noteq> 0 \<longleftrightarrow> 16 \<le> unat a mod 16 + unat b mod 16)"
  unfolding f_def flag_set compute_all_add_bits [OF assms(1)]
  using half_carry [OF assms(1), of a b] carry_out [of a b] add_overflow_sign [of a b] by auto

theorem add_flags_witness:
  "compute_all_add (0x80 + 0x90 :: u8) 0x80 AND CC_O \<noteq> 0 \<and> compute_all_add (0x80 + 0x90 :: u8) 0x80 AND CC_C \<noteq> 0"
  using add_flags [of "0x80 :: u8" "0x90"] by (simp add: cc_width_def)

text \<open>
  C13: after a comparison (a subtraction \<open>a - b\<close>) the flags decide every order between the
  operands: carry is the unsigned \<open>a < b\<close>, zero is equality, sign different from overflow is
  the signed \<open>a < b\<close>.
\<close>

theorem sub_flags_order:
  fixes a b :: "'w::len word"
  assumes "cc_width TYPE('w)"
  defines "f \<equiv> compute_all_sub (a - b) b"
  shows "(f AND CC_C \<noteq> 0 \<longleftrightarrow> a < b)
    \<and> (f AND CC_Z \<noteq> 0 \<longleftrightarrow> a = b)
    \<and> ((f AND CC_S \<noteq> 0) \<noteq> (f AND CC_O \<noteq> 0) \<longleftrightarrow> sint a < sint b)
    \<and> (f AND CC_O \<noteq> 0 \<longleftrightarrow> sint a - sint b \<noteq> sint (a - b))"
  unfolding f_def flag_set compute_all_sub_bits [OF assms(1)]
  using sub_overflow_sign [of a b] by auto

theorem sub_flags_order_witness:
  "compute_all_sub (5 - 0xFFFFFFFF :: u32) 0xFFFFFFFF AND CC_C \<noteq> 0"
  using sub_flags_order [of "5 :: u32" "0xFFFFFFFF"] by (simp add: cc_width_def)

section \<open>The short carry computation\<close>

definition op_size_of :: "CCOp \<Rightarrow> op_size option" where
  "op_size_of op = (case op of
      CC_OP_MUL sz \<Rightarrow> Some sz | CC_OP_ADD sz \<Rightarrow> Some sz | CC_OP_ADC sz \<Rightarrow> Some sz | CC_OP_SUB sz \<Rightarrow> Some sz
    | CC_OP_SBB sz \<Rightarrow> Some sz | CC_OP_LOGIC sz \<Rightarrow> Some sz | CC_OP_INC sz \<Rightarrow> Some sz | CC_OP_DEC sz \<Rightarrow> Some sz
    | CC_OP_SHL sz \<Rightarrow> Some sz | CC_OP_SAR sz \<Rightarrow> Some sz | CC_OP_BMILG sz \<Rightarrow> Some sz | _ \<Rightarrow> None)"

text \<open>
  The operands the translator stores for an operation whose flags come from a carry it has
  already computed (\<open>CC_SRC = C\<close> for increments, \<open>CC_DST = C\<close> for \<open>adcx\<close>).
\<close>

definition carry_stored :: "u32 \<Rightarrow> u32 \<Rightarrow> CCOp \<Rightarrow> bool" where
  "carry_stored dst src1 op = (case op of
      CC_OP_INC sz \<Rightarrow> src1 \<le> 1 | CC_OP_DEC sz \<Rightarrow> src1 \<le> 1
    | CC_OP_ADCX \<Rightarrow> dst \<le> 1 | CC_OP_ADCOX \<Rightarrow> dst \<le> 1 | _ \<Rightarrow> True)"

lemma and_CC_C: "f AND CC_C = of_bool (bit f 0)"
  by (rule bit_eqI) (auto simp: bit_and_iff bit_CC bit_of_bool_iff)

lemma carry_only:
  fixes x y z :: "'w::len word"
  assumes "cc_width TYPE('w)"
  shows "\<not> bit (parity_flag x) 0" "\<not> bit (sign_flag x) 0" "\<not> bit (top_to_O x) 0" "\<not> bit (aux_flag x y z) 0"
    "\<not> bit (zero_flag x) 0" "\<not> bit (of_bool p * CC_O) 0"
  using assms
  by (simp_all add: bit_parity_flag bit_sign_flag bit_top_to_O bit_aux_flag bit_zero_flag bit_CC)

lemma template_carry:
  fixes x y z :: "'w::len word"
  assumes w: "cc_width TYPE('w)"
  shows "compute_all_add x y AND CC_C = compute_c_add x y"
    "compute_all_adc x y z AND CC_C = compute_c_adc x y z"
    "compute_all_sub x y AND CC_C = compute_c_sub x y"
    "compute_all_sbb x y z AND CC_C = compute_c_sbb x y z"
    "compute_all_logic x y AND CC_C = 0"
    "compute_all_inc x y AND CC_C = of_bool (bit y 0)"
    "compute_all_dec x y AND CC_C = of_bool (bit y 0)"
    "compute_all_shl x y AND CC_C = compute_c_shl x y"
    "compute_all_sar x y AND CC_C = of_bool (bit y 0)"
    "compute_all_mul x v AND CC_C = of_bool (v \<noteq> 0)"
    "compute_all_bmilg x y AND CC_C = compute_c_bmilg x y"
  unfolding and_CC_C compute_all_add_def compute_c_add_def compute_all_adc_def compute_c_adc_def
    compute_all_sub_def compute_c_sub_def compute_all_sbb_def compute_c_sbb_def compute_all_logic_def
    compute_all_inc_def compute_all_dec_def compute_all_shl_def compute_c_shl_def compute_all_sar_def
    compute_all_mul_def compute_all_bmilg_def compute_c_bmilg_def Let_def bit_or_iff
  by (simp_all only: carry_only [OF w] bit_of_bool_iff bit_ucast_iff bit_and_iff bit_CC) simp_all

lemma cc_widths: "cc_width TYPE(8)" "cc_width TYPE(16)" "cc_width TYPE(32)"
  by (simp_all add: cc_width_def)

lemma carry_small:
  assumes "(x :: u32) \<le> 1" shows "x = of_bool (bit x 0)"
proof (rule bit_eqI)
  fix n
  have "unat x < 2" using assms unat_mono [of x 2] by (simp add: word_le_nat_alt)
  then have "bit (unat x) n \<longleftrightarrow> n = 0 \<and> bit (unat x) 0"
    by (cases n) (auto simp: bit_Suc less_2_cases_iff)
  then show "bit x n \<longleftrightarrow> bit (of_bool (bit x 0) :: u32) n"
    by (auto simp: bit_unsigned_iff bit_of_bool_iff dest: bit_imp_le_length)
qed

lemma low_bit: "(x :: u32) AND 1 = of_bool (bit x 0)"
  by (rule bit_eqI) (auto simp: bit_and_iff bit_1_iff bit_of_bool_iff)

lemma low_bit_ucast: "bit (ucast (x :: u32) :: 'w::len word) 0 = bit x 0"
  unfolding bit_ucast_iff by simp

lemma adx_bits:
  "bit (compute_all_adcx dst src1 src2) 0 = bit dst 0"
  "bit (compute_all_adcox dst src1 src2) 0 = bit dst 0"
  "bit (compute_all_adox dst src1 src2) 0 = bit src1 0"
proof -
  have "\<not> bit (src2 * CC_O) 0" "dst * CC_C = dst" by (simp_all add: bit_0 CC_O_def CC_C_def)
  then show "bit (compute_all_adcx dst src1 src2) 0 = bit dst 0"
    "bit (compute_all_adcox dst src1 src2) 0 = bit dst 0"
    "bit (compute_all_adox dst src1 src2) 0 = bit src1 0"
    by (simp_all only: compute_all_adcx_def compute_all_adcox_def compute_all_adox_def bit_or_iff
        bit_and_iff bit_not_iff bit_CC) simp_all
qed

lemma adx_carry:
  "dst \<le> 1 \<Longrightarrow> compute_all_adcx dst src1 src2 AND CC_C = dst"
  "dst \<le> 1 \<Longrightarrow> compute_all_adcox dst src1 src2 AND CC_C = dst"
  "compute_all_adox dst src1 src2 AND CC_C = src1 AND 1"
  by (simp_all only: and_CC_C adx_bits low_bit carry_small [symmetric])

text \<open>
  C12: the short path that computes only the carry agrees with the carry bit of the full flag
  computation, for every lazy operation of the 32-bit target whose operands are the ones the
  translator stores.
\<close>

theorem carry_agrees:
  assumes "op_size_of op \<noteq> Some SzQ" "carry_stored dst src1 op"
  shows "helper_cc_compute_c dst src1 src2 op = helper_cc_compute_all dst src1 src2 op AND CC_C"
  using assms cc_widths
  by (cases op; (simp add: helper_cc_compute_c_def helper_cc_compute_all_def op_size_of_def
      carry_stored_def mul_at_size_def at_size_def at_size3_def template_carry adx_carry
      split: op_size.splits)?)
    (auto simp: low_bit low_bit_ucast and_CC_C bit_CC dest: carry_small)

theorem carry_agrees_witness:
  "helper_cc_compute_c 0x10000 0xFFFF 0 (CC_OP_ADD SzW) = 1
   \<and> helper_cc_compute_all 0x10000 0xFFFF 0 (CC_OP_ADD SzW) AND CC_C = 1"
  using carry_agrees [of "CC_OP_ADD SzW" "0x10000" "0xFFFF" 0]
  by (simp add: op_size_of_def carry_stored_def helper_cc_compute_c_def at_size_def compute_c_add_def)

section \<open>Loading and reading \<open>EFLAGS\<close>\<close>

definition cc_bits :: "nat set" where "cc_bits = {0, 2, 4, 6, 7, 11}"

lemma bit_sys_mask: "bit VM_MASK n \<longleftrightarrow> n = 17" "bit RF_MASK n \<longleftrightarrow> n = 16" "bit DF_MASK n \<longleftrightarrow> n = 10"
proof -
  have e: "VM_MASK = 2 ^ 17" "RF_MASK = 2 ^ 16" "DF_MASK = 2 ^ 10"
    by (simp_all add: VM_MASK_def RF_MASK_def DF_MASK_def)
  show "bit VM_MASK n \<longleftrightarrow> n = 17" "bit RF_MASK n \<longleftrightarrow> n = 16" "bit DF_MASK n \<longleftrightarrow> n = 10"
    by (simp_all only: e bit_exp_iff) auto
qed

lemma bit_two: "bit (2 :: u32) n \<longleftrightarrow> n = 1"
  using bit_exp_iff [where 'a = u32, of 1 n] by auto

lemma df_load: "(1 - 2 * (signed_drop_bit 10 ef AND 1) :: u32) = (if bit ef 10 then - 1 else 1)"
  unfolding low_bit by (simp add: bit_signed_drop_bit_iff)

lemma df_load_bit: "bit (if p then - 1 else 1 :: u32) n \<and> n = 10 \<longleftrightarrow> n = 10 \<and> p"
  by (auto simp: bit_1_iff)

lemma read_after_write:
  "helper_read_eflags ((helper_write_eflags env t0 um)\<lparr>cc_op := CC_OP_EFLAGS\<rparr>)
    = (t0 AND (CC_O OR CC_S OR CC_Z OR CC_A OR CC_P OR CC_C)) OR ((if bit t0 10 then - 1 else 1) AND DF_MASK)
      OR (((eflags env AND NOT um) OR (t0 AND um) OR 2) AND NOT (VM_MASK OR RF_MASK))"
  unfolding df_load [symmetric]
  by (simp add: helper_read_eflags_def helper_write_eflags_def cpu_load_eflags_def cpu_cc_compute_all_def
      helper_cc_compute_all_def)

lemma read_bits:
  "bit (helper_read_eflags ((helper_write_eflags env t0 um)\<lparr>cc_op := CC_OP_EFLAGS\<rparr>)) n \<longleftrightarrow>
    bit t0 n \<and> n \<in> cc_bits \<or> bit t0 10 \<and> n = 10
    \<or> (bit (eflags env) n \<and> \<not> bit um n \<or> bit t0 n \<and> bit um n \<or> n = 1) \<and> n \<noteq> 16 \<and> n \<noteq> 17"
  unfolding read_after_write bit_or_iff bit_and_iff bit_not_iff bit_sys_mask bit_CC bit_two df_load_bit cc_bits_def
  apply (cases "n < 32")
  subgoal by simp argo
  subgoal by (auto dest: bit_imp_le_length)
  done


definition zero_env :: CPUX86State where
  "zero_env = \<lparr>regs = \<lambda>_. 0, eip = 0, eflags = 2, cc_dst = 0, cc_src = 0,
     cc_src2 = 0, cc_op = CC_OP_DYNAMIC, df = 1, hflags = 0,
     segs = \<lambda>_. \<lparr>sg_selector = 0, sg_base = 0, sg_limit = 0, sg_flags = 0\<rparr>, cr = \<lambda>_. 0, a20_mask = - 1\<rparr>"


end
