(* ===== verification/HookInst.thy ===== *)
theory HookInst
  imports Operands Callstack TaintRegs CcHelper
begin

text \<open>
  The taint propagation of \<open>hook_inst.c\<close>: one function per class of instructions, the table
  \<open>setup_inst_hook\<close> fills, and the per-instruction entry \<open>Instrument\<close>. The file is part of the
  sources but not of the build; its taint functions are the argument \<open>A\<close> (see \<open>taint_api\<close>). Of
  the callees that no source defines, \<open>get_current_func\<close> and \<open>get_user_esp\<close> are the values
  \<open>cur_func\<close> and \<open>user_esp\<close>, and \<open>dump_callstacks_ex\<close> is a message. Output is the list
  \<open>hs_log\<close>. \<open>None\<close> is undefined behaviour: an operand the instruction does not have, a
  register without a slot, an uninitialised address, or a failing taint function.
\<close>

unbundle bit_operations_syntax

section \<open>State\<close>

datatype hook_msg =
    Missing xed_iclass
  | Access u32 u32
  | Dump_callstacks u32
  | Get_environment u32 u32 u32
  | Set_environment u32 u32 u32
  | To_heap u32 u32
  | Movs u32 u32 u32 u32
  | Push u32 u32
  | Pop u32
  | Unknown_push
  | Unfound_CMOVcc
  | Taint_appears u32
  | Inst u32
  | Source_args u32 u32 u32

record syscall_args =
  sa_ebx :: u32
  sa_ecx :: u32
  sa_edx :: u32
  sa_esi :: u32
  sa_edi :: u32
  sa_ebp :: u32

record 's hook_state =
  ts :: 's
  og :: operand_globals
  g_taint :: u32
  g_pc :: u32
  g_opcode :: xed_iclass
  kernel_stack_min :: u32
  kernel_stack_max :: u32
  sargs :: syscall_args
  hs_log :: "hook_msg list"
  hs_exit :: bool

definition say :: "hook_msg \<Rightarrow> 's hook_state \<Rightarrow> 's hook_state" where
  "say x h = h\<lparr>hs_log := hs_log h @ [x]\<rparr>"

text \<open>The operand accessors and taint functions on the whole state.\<close>

definition operand_at :: "xed_decoded_inst \<Rightarrow> nat \<Rightarrow> xed_operand option" where
  "operand_at xd i = (if i < length (xd_operands xd) then Some (xd_operands xd ! i) else None)"

definition hk_mem :: "CPUX86State \<Rightarrow> xed_decoded_inst \<Rightarrow> nat \<Rightarrow> 's hook_state \<Rightarrow> ('s hook_state \<times> u32 option) option" where
  "hk_mem env xd i h = do {
     op \<leftarrow> operand_at xd i;
     (g, r) \<leftarrow> operand_is_mem env xd (og h) op i;
     Some (h\<lparr>og := g\<rparr>, r) }"

definition hk_reg :: "xed_decoded_inst \<Rightarrow> nat \<Rightarrow> xed_reg option option" where
  "hk_reg xd i = do { op \<leftarrow> operand_at xd i; Some (operand_is_reg xd op) }"

definition put_range :: "'s taint_api \<Rightarrow> u32 \<Rightarrow> u32 \<Rightarrow> u32 \<Rightarrow> 's hook_state \<Rightarrow> 's hook_state option" where
  "put_range A a v n h = do { s \<leftarrow> set_mem_taint_bysize A a v n (ts h); Some (h\<lparr>ts := s\<rparr>) }"

definition put_reg :: "'s taint_api \<Rightarrow> xed_reg \<Rightarrow> u32 \<Rightarrow> 's hook_state \<Rightarrow> 's hook_state" where
  "put_reg A r v h = h\<lparr>ts := set_reg_taint A r v (ts h)\<rparr>"

section \<open>Sources and observers\<close>

definition set_taint_source_args :: "u32 \<Rightarrow> CPUX86State \<Rightarrow> ram \<Rightarrow> 's hook_state \<Rightarrow> 's hook_state option" where
  "set_taint_source_args user_esp env m h = do {
     kernel_esp \<leftarrow> get_kernel_esp env m;
     let lo = kernel_esp AND 0xffffe000;
     let h = h\<lparr>kernel_stack_min := lo, kernel_stack_max := lo + 0x2000\<rparr>;
     let h = say (Source_args user_esp (kernel_stack_min h) (kernel_stack_max h)) h;
     b \<leftarrow> PEMU_get_reg env XED_REG_EBX;
     c \<leftarrow> PEMU_get_reg env XED_REG_ECX;
     d \<leftarrow> PEMU_get_reg env XED_REG_EDX;
     si \<leftarrow> PEMU_get_reg env XED_REG_ESI;
     di \<leftarrow> PEMU_get_reg env XED_REG_EDI;
     bp \<leftarrow> PEMU_get_reg env XED_REG_EBP;
     Some (h\<lparr>sargs := \<lparr>sa_ebx = b, sa_ecx = c, sa_edx = d, sa_esi = si, sa_edi = di, sa_ebp = bp\<rparr>\<rparr>) }"

definition is_special_inst :: "xed_decoded_inst \<Rightarrow> bool" where
  "is_special_inst x \<longleftrightarrow> xd_iclass x = ''LEA''"

definition rep_done :: "CPUX86State \<Rightarrow> xed_decoded_inst \<Rightarrow> bool option" where
  "rep_done env xd = do { c \<leftarrow> PEMU_get_reg env XED_REG_ECX; Some (c = 0 \<and> xd_has_rep_prefix xd) }"

definition off_kernel_stack :: "u32 \<Rightarrow> 's hook_state \<Rightarrow> bool" where
  "off_kernel_stack a h \<longleftrightarrow> a > 0xc0000000 \<and> (a < kernel_stack_min h \<or> a > kernel_stack_max h)"

definition get_enviroment_taint ::
  "u32 \<Rightarrow> CPUX86State \<Rightarrow> xed_decoded_inst \<Rightarrow> 's hook_state \<Rightarrow> 's hook_state option" where
  "get_enviroment_taint cur_func env xd h = do {
     op_1 \<leftarrow> operand_at xd 1;
     op_0 \<leftarrow> operand_at xd 0;
     if is_special_inst xd then Some h
     else do {
       (h, addr) \<leftarrow>
         (if g_opcode h \<in> {''MOVSB'', ''MOVSW'', ''MOVSD''} then do {
            done \<leftarrow> rep_done env xd;
            if done then Some (h, None)
            else do { a \<leftarrow> PEMU_get_reg env XED_REG_ESI; Some (h, Some a) } }
          else if g_opcode h = ''PUSH'' then hk_mem env xd 0 h
          else if g_opcode h \<in> {''PUSHFD'', ''PUSHAD'', ''POP'', ''POPFD'', ''POPAD''} then Some (h, None)
          else hk_mem env xd 1 h);
       case addr of
         None \<Rightarrow> Some h
       | Some a \<Rightarrow> Some (if off_kernel_stack a h then say (Get_environment (g_pc h) cur_func a) h else h) } }"

definition set_enviroment_taint ::
  "u32 \<Rightarrow> CPUX86State \<Rightarrow> xed_decoded_inst \<Rightarrow> 's hook_state \<Rightarrow> 's hook_state option" where
  "set_enviroment_taint cur_func env xd h = do {
     op_1 \<leftarrow> operand_at xd 1;
     op_0 \<leftarrow> operand_at xd 0;
     if is_special_inst xd then Some h
     else do {
       (h, addr) \<leftarrow>
         (if g_opcode h \<in> {''MOVSB'', ''MOVSW'', ''MOVSD''} then do {
            done \<leftarrow> rep_done env xd;
            if done then Some (h, None)
            else do { a \<leftarrow> PEMU_get_reg env XED_REG_EDI; Some (h, Some a) } }
          else if g_opcode h \<in> {''PUSH'', ''PUSHFD'', ''PUSHAD''} then Some (h, None)
          else if g_opcode h = ''POP'' then hk_mem env xd 0 h
          else if g_opcode h \<in> {''POPFD'', ''POPAD''} then Some (h, None)
          else hk_mem env xd 1 h);
       case addr of
         None \<Rightarrow> Some h
       | Some a \<Rightarrow> Some (if off_kernel_stack a h then say (Set_environment (g_pc h) cur_func a) h else h) } }"

text \<open>
  The observers use the address after a failed test, when it is not initialised.
\<close>

definition observe :: "'s taint_api \<Rightarrow> CPUX86State \<Rightarrow> xed_decoded_inst \<Rightarrow> nat \<Rightarrow> 's hook_state \<Rightarrow> 's hook_state option" where
  "observe A env xd i h = do {
     (h, r) \<leftarrow> hk_mem env xd i h;
     addr \<leftarrow> r;
     t \<leftarrow> get_mem_taint A addr (ts h);
     let h = say (Access addr t) h;
     Some (if off_kernel_stack addr h \<and> t = 4 \<and> g_pc h < 0xe0000000 then say (Dump_callstacks (g_pc h)) h else h) }"

definition ds_code_handle_mem_access1 ::
  "'s taint_api \<Rightarrow> CPUX86State \<Rightarrow> xed_decoded_inst \<Rightarrow> 's hook_state \<Rightarrow> 's hook_state option" where
  "ds_code_handle_mem_access1 A env xd h = do {
     op_1 \<leftarrow> operand_at xd 1;
     if is_special_inst xd then Some h else observe A env xd 1 h }"

definition ds_code_handle_mem_access0 ::
  "'s taint_api \<Rightarrow> CPUX86State \<Rightarrow> xed_decoded_inst \<Rightarrow> 's hook_state \<Rightarrow> 's hook_state option" where
  "ds_code_handle_mem_access0 A env xd h = observe A env xd 0 h"

definition taint_mem_access0 ::
  "'s taint_api \<Rightarrow> CPUX86State \<Rightarrow> xed_decoded_inst \<Rightarrow> 's hook_state \<Rightarrow> 's hook_state option" where
  "taint_mem_access0 A env xd h = do {
     (h, r) \<leftarrow> hk_mem env xd 0 h;
     case r of
       None \<Rightarrow> Some h
     | Some addr \<Rightarrow>
         if addr < kernel_stack_min h \<or> addr > kernel_stack_max h
         then do { t \<leftarrow> get_mem_taint A addr (ts h); Some (say (To_heap (g_pc h) t) h) }
         else Some h }"

section \<open>The instruction classes\<close>

definition UnimplementedInstruction :: "'s hook_state \<Rightarrow> 's hook_state" where
  "UnimplementedInstruction h = say (Missing (g_opcode h)) h"

text \<open>The taint passes through a \<open>UChar\<close>.\<close>

definition Instrument_LEA :: "'s taint_api \<Rightarrow> CPUX86State \<Rightarrow> xed_decoded_inst \<Rightarrow> 's hook_state \<Rightarrow> 's hook_state option" where
  "Instrument_LEA A env xd h = do {
     r \<leftarrow> hk_reg xd 0;
     case r of
       None \<Rightarrow> Some h
     | Some reg_id \<Rightarrow> do {
         (h, mem) \<leftarrow> hk_mem env xd 1 h;
         if mem \<noteq> None \<and> reg_id \<noteq> XED_REG_ESP then
           let taint = (ucast (get_reg_taint A (s_base_regid (og h)) (ts h)) :: u8) in
           Some (put_reg A reg_id (ucast taint) h)
         else Some h } }"

definition Instrument_CALL :: "'s hook_state \<Rightarrow> 's hook_state" where "Instrument_CALL h = h"
definition Instrument_RET :: "'s hook_state \<Rightarrow> 's hook_state" where "Instrument_RET h = h"
definition Instrument_NONE :: "'s hook_state \<Rightarrow> 's hook_state" where "Instrument_NONE h = h"
definition Instrument_POPFD :: "'s hook_state \<Rightarrow> 's hook_state" where "Instrument_POPFD h = h"
definition Instrument_CMP :: "'s hook_state \<Rightarrow> 's hook_state" where "Instrument_CMP h = h"

definition Instrument_LODSX :: "'s taint_api \<Rightarrow> CPUX86State \<Rightarrow> xed_decoded_inst \<Rightarrow> 's hook_state \<Rightarrow> 's hook_state option" where
  "Instrument_LODSX A env xd h = do {
     done \<leftarrow> rep_done env xd;
     if done then Some h
     else do {
       (h, mem) \<leftarrow> hk_mem env xd 1 h;
       case mem of
         None \<Rightarrow> Some h
       | Some addr \<Rightarrow> do {
           t \<leftarrow> get_mem_taint A addr (ts h);
           let h = h\<lparr>g_taint := t\<rparr>;
           Some (put_reg A XED_REG_EAX (g_taint h) h) } } }"

definition Instrument_STOSX :: "'s taint_api \<Rightarrow> CPUX86State \<Rightarrow> xed_decoded_inst \<Rightarrow> 's hook_state \<Rightarrow> 's hook_state option" where
  "Instrument_STOSX A env xd h = do {
     done \<leftarrow> rep_done env xd;
     if done then Some h
     else do {
       (h, mem) \<leftarrow> hk_mem env xd 0 h;
       case mem of
         None \<Rightarrow> Some h
       | Some addr \<Rightarrow>
           let h = h\<lparr>g_taint := get_reg_taint A XED_REG_EAX (ts h)\<rparr> in
           put_range A addr (g_taint h) (xd_operand_length xd 0) h } }"

definition Instrument_MOVSBWD :: "'s taint_api \<Rightarrow> CPUX86State \<Rightarrow> xed_decoded_inst \<Rightarrow> 's hook_state \<Rightarrow> 's hook_state option" where
  "Instrument_MOVSBWD A env xd h = do {
     done \<leftarrow> rep_done env xd;
     if done then Some h
     else do {
       si \<leftarrow> PEMU_get_reg env XED_REG_ESI;
       t \<leftarrow> get_mem_taint A si (ts h);
       let h = h\<lparr>g_taint := t\<rparr>;
       di \<leftarrow> PEMU_get_reg env XED_REG_EDI;
       h \<leftarrow> put_range A di (g_taint h) (xd_operand_length xd 0) h;
       ts' \<leftarrow> get_mem_taint A si (ts h);
       td \<leftarrow> get_mem_taint A di (ts h);
       Some (say (Movs si ts' di td) h) } }"

definition Instrument_MOV :: "'s taint_api \<Rightarrow> CPUX86State \<Rightarrow> xed_decoded_inst \<Rightarrow> 's hook_state \<Rightarrow> 's hook_state option" where
  "Instrument_MOV A env xd h = do {
     (h, mem1) \<leftarrow> hk_mem env xd 1 (h\<lparr>g_taint := 0\<rparr>);
     reg1 \<leftarrow> hk_reg xd 1;
     h \<leftarrow>
       (case mem1 of
          Some addr \<Rightarrow> do { t \<leftarrow> get_mem_taint A addr (ts h); Some (h\<lparr>g_taint := t\<rparr>) }
        | None \<Rightarrow>
            (case reg1 of
               Some reg \<Rightarrow> Some (h\<lparr>g_taint := get_reg_taint A reg (ts h)\<rparr>)
             | None \<Rightarrow> Some (h\<lparr>g_taint := 0\<rparr>)));
     (h, mem0) \<leftarrow> hk_mem env xd 0 h;
     reg0 \<leftarrow> hk_reg xd 0;
     (case mem0 of
        Some addr \<Rightarrow> put_range A addr (g_taint h) (xd_operand_length xd 0) h
      | None \<Rightarrow>
          (case reg0 of
             Some reg \<Rightarrow> Some (put_reg A reg (g_taint h) h)
           | None \<Rightarrow> Some h)) }"

definition cmov_cont :: "xed_iclass \<Rightarrow> u32 \<Rightarrow> bool option" where
  "cmov_cont opcode ef =
     (if opcode = ''CMOVB'' then Some (is_cf_set ef \<noteq> 0)
      else if opcode = ''CMOVNB'' then Some (is_cf_set ef = 0)
      else if opcode = ''CMOVZ'' then Some (is_zf_set ef \<noteq> 0)
      else if opcode = ''CMOVNZ'' then Some (is_zf_set ef = 0)
      else if opcode = ''CMOVBE'' then Some (is_zf_set ef \<noteq> 0 \<or> is_cf_set ef \<noteq> 0)
      else if opcode = ''CMOVNBE'' then Some (is_zf_set ef = 0 \<and> is_cf_set ef = 0)
      else if opcode = ''CMOVS'' then Some (is_sf_set ef \<noteq> 0)
      else if opcode = ''CMOVNS'' then Some (is_sf_set ef = 0)
      else if opcode = ''CMOVL'' then Some (is_sf_set ef \<noteq> is_of_set ef)
      else if opcode = ''CMOVNL'' then Some (is_sf_set ef = is_of_set ef)
      else if opcode = ''CMOVLE'' then Some (is_sf_set ef \<noteq> is_of_set ef \<or> is_zf_set ef \<noteq> 0)
      else if opcode = ''CMOVNLE'' then Some (is_sf_set ef = is_of_set ef \<and> is_zf_set ef = 0)
      else None)"

definition Instrument_CMOVcc :: "'s taint_api \<Rightarrow> CPUX86State \<Rightarrow> xed_decoded_inst \<Rightarrow> 's hook_state \<Rightarrow> 's hook_state option" where
  "Instrument_CMOVcc A env xd h =
     (case cmov_cont (xd_iclass xd) (cpu_compute_eflags env) of
        None \<Rightarrow> Some ((say Unfound_CMOVcc h)\<lparr>hs_exit := True\<rparr>)
      | Some cont \<Rightarrow> if cont then Instrument_MOV A env xd h else Some h)"

definition Instrument_SETcc :: "'s taint_api \<Rightarrow> CPUX86State \<Rightarrow> xed_decoded_inst \<Rightarrow> 's hook_state \<Rightarrow> 's hook_state option" where
  "Instrument_SETcc A env xd h = do {
     (h, mem) \<leftarrow> hk_mem env xd 0 h;
     reg0 \<leftarrow> hk_reg xd 0;
     (case mem of
        Some addr \<Rightarrow> put_range A addr 0 1 h
      | None \<Rightarrow> (case reg0 of Some reg \<Rightarrow> Some (put_reg A reg 0 h) | None \<Rightarrow> Some h)) }"

definition Instrument_Binary_OP :: "'s taint_api \<Rightarrow> CPUX86State \<Rightarrow> xed_decoded_inst \<Rightarrow> 's hook_state \<Rightarrow> 's hook_state option" where
  "Instrument_Binary_OP A env xd h = do {
     (h, mem1) \<leftarrow> hk_mem env xd 1 (h\<lparr>g_taint := 0\<rparr>);
     op_0 \<leftarrow> operand_at xd 0;
     op_1 \<leftarrow> operand_at xd 1;
     (h, goto_END) \<leftarrow>
       (case mem1 of
          Some addr \<Rightarrow> do { t \<leftarrow> get_mem_taint A addr (ts h); Some (h\<lparr>g_taint := t\<rparr>, False) }
        | None \<Rightarrow>
            (case operand_is_reg xd op_1 of
               Some reg \<Rightarrow> Some (h\<lparr>g_taint := get_reg_taint A reg (ts h)\<rparr>, False)
             | None \<Rightarrow> Some (h, operand_is_imm xd op_1 \<noteq> None)));
     if goto_END then Some h
     else do {
       (h, mem0) \<leftarrow> hk_mem env xd 0 h;
       (case mem0 of
          Some addr \<Rightarrow> do {
            t \<leftarrow> get_mem_taint A addr (ts h);
            let h = h\<lparr>g_taint := g_taint h OR t\<rparr>;
            put_range A addr (g_taint h) (xd_operand_length xd 0) h }
        | None \<Rightarrow>
            (case operand_is_reg xd op_0 of
               Some reg \<Rightarrow>
                 let h = h\<lparr>g_taint := g_taint h OR get_reg_taint A reg (ts h)\<rparr> in
                 Some (put_reg A reg (g_taint h) h)
             | None \<Rightarrow> Some h)) } }"

definition Instrument_XADD :: "'s taint_api \<Rightarrow> CPUX86State \<Rightarrow> xed_decoded_inst \<Rightarrow> 's hook_state \<Rightarrow> 's hook_state option" where
  "Instrument_XADD A env xd h = do {
     (h, mem0) \<leftarrow> hk_mem env xd 0 h;
     r0 \<leftarrow> hk_reg xd 0;
     r1 \<leftarrow> hk_reg xd 1;
     h \<leftarrow>
       (case mem0 of
          Some addr0 \<Rightarrow> do {
            taint0 \<leftarrow> get_mem_taint A addr0 (ts h);
            (case r1 of
               Some reg1 \<Rightarrow> do {
                 let taint1 = get_reg_taint A reg1 (ts h);
                 h \<leftarrow> put_range A addr0 taint1 (xd_operand_length xd 0) h;
                 Some (put_reg A reg1 taint0 h) }
             | None \<Rightarrow> Some h) }
        | None \<Rightarrow>
            (case r0 of
               Some reg0 \<Rightarrow>
                 let taint0 = get_reg_taint A reg0 (ts h) in
                 (case r1 of
                    Some reg1 \<Rightarrow>
                      let taint1 = get_reg_taint A reg1 (ts h) in
                      Some (put_reg A reg0 taint1 (put_reg A reg1 taint0 h))
                  | None \<Rightarrow> Some h)
             | None \<Rightarrow> Some h));
     Instrument_Binary_OP A env xd h }"

definition Instrument_PUSH :: "'s taint_api \<Rightarrow> CPUX86State \<Rightarrow> xed_decoded_inst \<Rightarrow> 's hook_state \<Rightarrow> 's hook_state option" where
  "Instrument_PUSH A env xd h = do {
     op \<leftarrow> operand_at xd 0;
     esp \<leftarrow> PEMU_get_reg env XED_REG_ESP;
     let mem_addr = esp - 4;
     let h = h\<lparr>g_taint := 0\<rparr>;
     (h, known) \<leftarrow>
       (case operand_is_reg xd op of
          Some reg_id \<Rightarrow> Some (h\<lparr>g_taint := get_reg_taint A reg_id (ts h)\<rparr>, True)
        | None \<Rightarrow>
            if operand_is_imm xd op \<noteq> None then Some (h\<lparr>g_taint := 0\<rparr>, True)
            else do {
              (h, mem) \<leftarrow> hk_mem env xd 0 h;
              (case mem of
                 Some addr \<Rightarrow> do { t \<leftarrow> get_mem_taint A addr (ts h); Some (h\<lparr>g_taint := t\<rparr>, True) }
               | None \<Rightarrow> Some (say Unknown_push h, False)) });
     if \<not> known then Some h
     else do {
       h \<leftarrow> put_range A mem_addr (g_taint h) 4 h;
       t \<leftarrow> get_mem_taint A mem_addr (ts h);
       Some (say (Push mem_addr t) h) } }"

definition Instrument_PUSHFD :: "'s taint_api \<Rightarrow> CPUX86State \<Rightarrow> 's hook_state \<Rightarrow> 's hook_state option" where
  "Instrument_PUSHFD A env h = do {
     esp \<leftarrow> PEMU_get_reg env XED_REG_ESP;
     put_range A (esp - 4) 0 4 h }"

fun pushad_loop :: "'s taint_api \<Rightarrow> xed_reg list \<Rightarrow> u32 \<Rightarrow> 's hook_state \<Rightarrow> 's hook_state option" where
  "pushad_loop A [] mem_addr h = Some h"
| "pushad_loop A (r # rs) mem_addr h = do {
     s \<leftarrow> set_mem_taint A mem_addr (get_reg_taint A r (ts h)) (ts h);
     pushad_loop A rs (mem_addr - 4) (h\<lparr>ts := s\<rparr>) }"

definition pushad_regs :: "xed_reg list" where
  "pushad_regs = [XED_REG_EAX, XED_REG_ECX, XED_REG_EDX, XED_REG_EBX,
     XED_REG_ESP, XED_REG_EBP, XED_REG_ESI, XED_REG_EDI]"

definition Instrument_PUSHAD :: "'s taint_api \<Rightarrow> CPUX86State \<Rightarrow> 's hook_state \<Rightarrow> 's hook_state option" where
  "Instrument_PUSHAD A env h = pushad_loop A pushad_regs (regs env (nat R_ESP) - 4) h"

fun popad_loop :: "'s taint_api \<Rightarrow> xed_reg list \<Rightarrow> u32 \<Rightarrow> 's hook_state \<Rightarrow> 's hook_state option" where
  "popad_loop A [] mem_addr h = Some h"
| "popad_loop A (r # rs) mem_addr h = do {
     t \<leftarrow> get_mem_taint A mem_addr (ts h);
     h \<leftarrow> put_range A mem_addr 0 4 (put_reg A r t h);
     popad_loop A rs (mem_addr + 4) h }"

definition popad_regs :: "xed_reg list" where
  "popad_regs = [XED_REG_EDI, XED_REG_ESI, XED_REG_EBP, XED_REG_ESP,
     XED_REG_EBX, XED_REG_EDX, XED_REG_ECX, XED_REG_EAX]"

definition Instrument_POPAD :: "'s taint_api \<Rightarrow> CPUX86State \<Rightarrow> 's hook_state \<Rightarrow> 's hook_state option" where
  "Instrument_POPAD A env h = do {
     mem_addr \<leftarrow> PEMU_get_reg env XED_REG_ESP;
     popad_loop A popad_regs mem_addr h }"

definition Instrument_POP :: "'s taint_api \<Rightarrow> CPUX86State \<Rightarrow> xed_decoded_inst \<Rightarrow> 's hook_state \<Rightarrow> 's hook_state option" where
  "Instrument_POP A env xd h = do {
     mem_addr \<leftarrow> PEMU_get_reg env XED_REG_ESP;
     t \<leftarrow> get_mem_taint A mem_addr (ts h);
     let h = h\<lparr>g_taint := t\<rparr>;
     r \<leftarrow> hk_reg xd 0;
     h \<leftarrow>
       (case r of
          Some reg_id \<Rightarrow> Some (put_reg A reg_id (g_taint h) h)
        | None \<Rightarrow> do {
            (h, mem) \<leftarrow> hk_mem env xd 0 h;
            (case mem of
               Some addr \<Rightarrow> put_range A mem_addr (g_taint h) 4 h
             | None \<Rightarrow> Some h) });
     Some (say (Pop mem_addr) h) }"

definition Instrument_XOR :: "'s taint_api \<Rightarrow> CPUX86State \<Rightarrow> xed_decoded_inst \<Rightarrow> 's hook_state \<Rightarrow> 's hook_state option" where
  "Instrument_XOR A env xd h = do {
     r \<leftarrow> hk_reg xd 0;
     same \<leftarrow>
       (case r of
          Some reg_id \<Rightarrow> do { r2 \<leftarrow> hk_reg xd 1; Some (r2 = Some reg_id) }
        | None \<Rightarrow> Some False);
     if same then Some (put_reg A (the r) 0 h)
     else Instrument_Binary_OP A env xd h }"

section \<open>The table and the entry\<close>

datatype hook_fn = H_Unimplemented | H_LEA | H_CALL | H_RET | H_MOV | H_NONE | H_CMP | H_LODSX | H_STOSX | H_XOR | H_Binary_OP
  | H_XADD | H_MOVSBWD | H_CMOVcc | H_SETcc | H_PUSH | H_PUSHFD | H_PUSHAD | H_POP | H_POPFD | H_POPAD

text \<open>The assignments of \<open>setup_inst_hook\<close> in its order; a later one overwrites an earlier one.\<close>

definition hook_rows :: "(xed_iclass \<times> hook_fn) list" where
  "hook_rows =
    [(''LEA'', H_LEA), (''CALL_NEAR'', H_CALL), (''RET_NEAR'', H_RET), (''MOV'', H_MOV),
     (''JO'', H_NONE), (''JNO'', H_NONE), (''JB'', H_NONE), (''JNB'', H_NONE), (''JZ'', H_NONE),
     (''JNZ'', H_NONE), (''JBE'', H_NONE), (''JNBE'', H_NONE), (''JS'', H_NONE), (''JNS'', H_NONE),
     (''JP'', H_NONE), (''JNP'', H_NONE), (''JL'', H_NONE), (''JNL'', H_NONE), (''JLE'', H_NONE),
     (''JNLE'', H_NONE), (''JRCXZ'', H_NONE), (''JMP'', H_NONE), (''CLD'', H_NONE),
     (''CLI'', H_NONE), (''STI'', H_NONE), (''MFENCE'', H_NONE), (''SYSEXIT'', H_NONE),
     (''CMP'', H_CMP), (''CMPXCHG'', H_NONE), (''TEST'', H_NONE), (''DEC'', H_NONE),
     (''INC'', H_NONE), (''NEG'', H_NONE), (''NOT'', H_NONE), (''BTS'', H_NONE), (''BT'', H_NONE),
     (''CBW'', H_NONE), (''CWDE'', H_NONE), (''CDQ'', H_NONE), (''RDTSC'', H_NONE),
     (''IRETD'', H_NONE), (''PREFETCHNTA'', H_NONE), (''LFENCE'', H_NONE), (''MOV_CR'', H_NONE),
     (''SCASB'', H_NONE), (''SCASD'', H_NONE), (''BSR'', H_NONE), (''BSF'', H_NONE),
     (''BTS'', H_NONE), (''BTR'', H_NONE), (''OUT'', H_NONE), (''IN'', H_NONE), (''NOP'', H_NONE),
     (''LODSB'', H_LODSX), (''LODSD'', H_LODSX), (''LODSD'', H_LODSX), (''STOSB'', H_STOSX),
     (''STOSW'', H_STOSX), (''STOSD'', H_STOSX), (''XOR'', H_XOR), (''OR'', H_Binary_OP),
     (''AND'', H_Binary_OP), (''ADD'', H_Binary_OP), (''ADC'', H_Binary_OP),
     (''SUB'', H_Binary_OP), (''SBB'', H_Binary_OP), (''XADD'', H_XADD), (''MOVSB'', H_MOVSBWD),
     (''MOVSW'', H_MOVSBWD), (''MOVSD'', H_MOVSBWD), (''CMOVB'', H_CMOVcc), (''CMOVNB'', H_CMOVcc),
     (''CMOVZ'', H_CMOVcc), (''CMOVNZ'', H_CMOVcc), (''CMOVBE'', H_CMOVcc),
     (''CMOVNBE'', H_CMOVcc), (''CMOVS'', H_CMOVcc), (''CMOVNS'', H_CMOVcc), (''CMOVL'', H_CMOVcc),
     (''CMOVNL'', H_CMOVcc), (''CMOVLE'', H_CMOVcc), (''CMOVNLE'', H_CMOVcc), (''SETB'', H_SETcc),
     (''SETNB'', H_SETcc), (''SETZ'', H_SETcc), (''SETNZ'', H_SETcc), (''SETBE'', H_SETcc),
     (''SETNBE'', H_SETcc), (''MOVZX'', H_MOV), (''MOVSX'', H_MOV), (''PUSH'', H_PUSH),
     (''PUSHFD'', H_PUSHFD), (''PUSHAD'', H_PUSHAD), (''POP'', H_POP), (''POPFD'', H_POPFD),
     (''POPAD'', H_POPAD), (''SHL'', H_NONE), (''SHR'', H_NONE), (''SAR'', H_NONE),
     (''RCL'', H_NONE), (''RCR'', H_NONE), (''ROL'', H_NONE), (''ROR'', H_NONE),
     (''SHRD'', H_NONE), (''SHLD'', H_NONE), (''DIV'', H_Binary_OP), (''IDIV'', H_Binary_OP),
     (''MUL'', H_Binary_OP), (''IMUL'', H_Binary_OP)]"

definition instrument_functions :: "xed_iclass \<Rightarrow> hook_fn" where
  "instrument_functions = fold (\<lambda>(c, f) t. t(c := f)) hook_rows (\<lambda>_. H_Unimplemented)"

definition setup_inst_hook :: "'s taint_api \<Rightarrow> 's hook_state \<Rightarrow> 's hook_state" where
  "setup_inst_hook A h = h\<lparr>ts := taintInit A (ts h)\<rparr>"

fun call_hook :: "'s taint_api \<Rightarrow> CPUX86State \<Rightarrow> xed_decoded_inst \<Rightarrow> hook_fn \<Rightarrow> 's hook_state \<Rightarrow> 's hook_state option" where
  "call_hook A env xd H_Unimplemented h = Some (UnimplementedInstruction h)"
| "call_hook A env xd H_LEA h = Instrument_LEA A env xd h"
| "call_hook A env xd H_CALL h = Some (Instrument_CALL h)"
| "call_hook A env xd H_RET h = Some (Instrument_RET h)"
| "call_hook A env xd H_MOV h = Instrument_MOV A env xd h"
| "call_hook A env xd H_NONE h = Some (Instrument_NONE h)"
| "call_hook A env xd H_CMP h = Some (Instrument_CMP h)"
| "call_hook A env xd H_LODSX h = Instrument_LODSX A env xd h"
| "call_hook A env xd H_STOSX h = Instrument_STOSX A env xd h"
| "call_hook A env xd H_XOR h = Instrument_XOR A env xd h"
| "call_hook A env xd H_Binary_OP h = Instrument_Binary_OP A env xd h"
| "call_hook A env xd H_XADD h = Instrument_XADD A env xd h"
| "call_hook A env xd H_MOVSBWD h = Instrument_MOVSBWD A env xd h"
| "call_hook A env xd H_CMOVcc h = Instrument_CMOVcc A env xd h"
| "call_hook A env xd H_SETcc h = Instrument_SETcc A env xd h"
| "call_hook A env xd H_PUSH h = Instrument_PUSH A env xd h"
| "call_hook A env xd H_PUSHFD h = Instrument_PUSHFD A env h"
| "call_hook A env xd H_PUSHAD h = Instrument_PUSHAD A env h"
| "call_hook A env xd H_POP h = Instrument_POP A env xd h"
| "call_hook A env xd H_POPFD h = Some (Instrument_POPFD h)"
| "call_hook A env xd H_POPAD h = Instrument_POPAD A env h"

text \<open>
  The propagation step inside \<open>Instrument\<close>, which the sources keep under \<open>#if 0\<close>, and
  \<open>Instrument\<close> as it is compiled. An exit ends the process.
\<close>

definition propagate :: "'s taint_api \<Rightarrow> CPUX86State \<Rightarrow> xed_decoded_inst \<Rightarrow> 's hook_state \<Rightarrow> 's hook_state option" where
  "propagate A env xd h = do {
     h \<leftarrow> call_hook A env xd (instrument_functions (xd_iclass xd)) (h\<lparr>g_taint := 0\<rparr>);
     if hs_exit h then Some h
     else if 0 < g_taint h \<and> g_taint h \<le> 6 then taint_mem_access0 A env xd (say (Taint_appears (g_taint h)) h)
     else Some h }"

definition Instrument :: "u32 \<Rightarrow> CPUX86State \<Rightarrow> xed_decoded_inst \<Rightarrow> u32 \<Rightarrow> 's hook_state \<Rightarrow> 's hook_state option" where
  "Instrument cur_func env xd pc h = do {
     let h = say (Inst pc) (h\<lparr>g_opcode := xd_iclass xd, g_pc := pc\<rparr>);
     h \<leftarrow> get_enviroment_taint cur_func env xd h;
     set_enviroment_taint cur_func env xd h }"

end
