(* ===== verification/HookProps.thy ===== *)
theory HookProps
  imports HookInst
begin

text \<open>
  What the instruction hooks of \<open>HookInst\<close> do to the taint, proved once over the interface
  \<open>taint_store\<close> and then for the store of \<open>taint2.c\<close> with any allocator that is correct and finds
  room. An operand is resolved to the place it denotes; a move assigns the taint of the source
  place, an arithmetic instruction joins both.
\<close>

unbundle bit_operations_syntax

section \<open>Places\<close>

datatype place = PMem u32 | PReg xed_reg | PImm | PNone

definition operand_place :: "CPUX86State \<Rightarrow> xed_decoded_inst \<Rightarrow> nat \<Rightarrow> place option" where
  "operand_place env xd i = do {
     op \<leftarrow> operand_at xd i;
     (g, mem) \<leftarrow> operand_is_mem env xd test_globals op i;
     (case mem of
        Some a \<Rightarrow> Some (PMem a)
      | None \<Rightarrow>
          (case operand_is_reg xd op of
             Some r \<Rightarrow> Some (PReg r)
           | None \<Rightarrow> Some (if operand_is_imm xd op \<noteq> None then PImm else PNone))) }"

fun mem_place :: "place \<Rightarrow> u32 option" where
  "mem_place (PMem a) = Some a" | "mem_place _ = None"

fun reg_place :: "place \<Rightarrow> xed_reg option" where
  "reg_place (PReg r) = Some r" | "reg_place _ = None"

fun taint_of :: "(u32 \<Rightarrow> u32) \<Rightarrow> (xed_reg \<Rightarrow> u32) \<Rightarrow> place \<Rightarrow> u32" where
  "taint_of m r (PMem a) = m a"
| "taint_of m r (PReg q) = r q"
| "taint_of m r _ = 0"

fun assign_mem :: "place \<Rightarrow> u32 \<Rightarrow> u32 \<Rightarrow> (u32 \<Rightarrow> u32) \<Rightarrow> u32 \<Rightarrow> u32" where
  "assign_mem (PMem a) v n m = (\<lambda>b. if b - a < n then v else m b)"
| "assign_mem _ v n m = m"

fun assign_reg :: "(xed_reg \<Rightarrow> xed_reg set) \<Rightarrow> place \<Rightarrow> u32 \<Rightarrow> (xed_reg \<Rightarrow> u32) \<Rightarrow> xed_reg \<Rightarrow> u32" where
  "assign_reg cov (PReg r) v f = (\<lambda>q. if q = r \<or> q \<in> cov r then v else f q)"
| "assign_reg cov _ v f = f"

lemma operand_is_mem_globals:
  "\<exists>g1. operand_is_mem env xd g op i = map_option (\<lambda>(g0, r). (g1, r)) (operand_is_mem env xd g' op i)"
  by (cases "operand_is_mem env xd g op i")
    (auto simp: operand_is_mem_def Let_def split: if_splits bind_splits option.splits)

lemma og_swap: "h\<lparr>g_taint := v, og := g\<rparr> = h\<lparr>og := g, g_taint := v\<rparr>"
  by simp

lemma hk_operand:
  assumes "operand_place env xd i = Some p"
  obtains g op where "hk_mem env xd i h = Some (h\<lparr>og := g\<rparr>, mem_place p)" "hk_reg xd i = Some (reg_place p)"
    "operand_at xd i = Some op" "operand_is_reg xd op = reg_place p" "operand_is_imm xd op \<noteq> None \<longleftrightarrow> p = PImm"
proof -
  from assms obtain op g0 r where op: "operand_at xd i = Some op"
    and mem: "operand_is_mem env xd test_globals op i = Some (g0, r)"
    and p: "p = (case r of Some a \<Rightarrow> PMem a | None \<Rightarrow> (case operand_is_reg xd op of Some q \<Rightarrow> PReg q
      | None \<Rightarrow> if operand_is_imm xd op \<noteq> None then PImm else PNone))"
    by (auto simp: operand_place_def split: bind_splits option.splits prod.splits if_splits)
  obtain g1 where g1: "operand_is_mem env xd (og h) op i = Some (g1, r)"
    using operand_is_mem_globals [of env xd "og h" op i test_globals] mem by auto
  have "r \<noteq> None \<Longrightarrow> operand_is_reg xd op = None \<and> operand_is_imm xd op = None"
    "operand_is_reg xd op \<noteq> None \<Longrightarrow> operand_is_imm xd op = None"
    using mem by (cases op; auto simp: operand_is_mem_def operand_is_reg_def operand_is_imm_def)+
  with op g1 p show ?thesis
    by (intro that [of g1 op])
      (auto simp: hk_mem_def hk_reg_def split: option.splits if_splits)
qed

lemma say_ts [simp]: "ts (say x h) = ts h" "g_taint (say x h) = g_taint h" "hs_exit (say x h) = hs_exit h"
  by (simp_all add: say_def)

lemma hk_mem_ts: "hk_mem env xd i h = Some (h', r) \<Longrightarrow> ts h' = ts h"
  by (auto simp: hk_mem_def split: bind_splits)

lemma slot_apart:
  fixes a :: u32
  assumes "i < 8"
  shows "a \<noteq> a - 4 - 4 * word_of_nat i" "\<not> (a + 4 + 4 * word_of_nat i) - a < 4"
proof -
  have u: "(4 + 4 * word_of_nat i :: u32) = word_of_nat (4 + 4 * i)" by simp
  have n: "unat (word_of_nat (4 + 4 * i) :: u32) = 4 + 4 * i"
    using assms by (simp add: unat_of_nat take_bit_eq_mod del: of_nat_add of_nat_mult)
  show "a \<noteq> a - 4 - 4 * word_of_nat i"
  proof
    assume "a = a - 4 - 4 * word_of_nat i"
    then have "(4 + 4 * word_of_nat i :: u32) = 0" by (simp add: algebra_simps)
    with n show False unfolding u by simp
  qed
  have e: "(a + 4 + 4 * word_of_nat i) - a = 4 + 4 * word_of_nat i" by simp
  show "\<not> (a + 4 + 4 * word_of_nat i) - a < 4"
    unfolding e u word_less_nat_alt n by simp
qed

lemma mapped_reg_get:
  assumes "mapped_reg r" shows "\<exists>v. PEMU_get_reg env r = Some v"
  using regmap0_range [OF mapped_reg_less [OF assms]] assms
  by (auto simp: PEMU_get_reg_def arr_def CPU_NB_REGS_def)

lemma hook_regs_get:
  "\<exists>v. PEMU_get_reg env XED_REG_ECX = Some v" "\<exists>v. PEMU_get_reg env XED_REG_ESI = Some v"
  "\<exists>v. PEMU_get_reg env XED_REG_EDI = Some v" "\<exists>v. PEMU_get_reg env XED_REG_ESP = Some v"
  by (rule mapped_reg_get; simp add: mapped_reg_def XED_REG_defs)+

definition returns :: "('s \<Rightarrow> bool) \<Rightarrow> 's hook_state option \<Rightarrow> bool" where
  "returns P r \<longleftrightarrow> (\<exists>h. r = Some h \<and> P (ts h))"

lemma returns_Some [simp]: "returns P (Some h) \<longleftrightarrow> P (ts h)"
  by (simp add: returns_def)

section \<open>Effects over the interface\<close>

context taint_store
begin

lemma put_range_eff:
  assumes "inv (ts h)"
  obtains s' where "put_range A a v n h = Some (h\<lparr>ts := s'\<rparr>)" "inv s'" "regt s' = regt (ts h)"
    "memt s' = (\<lambda>b. if b - a < n then v else memt (ts h) b)"
  using set_range [OF assms, of a v n] by (auto simp: put_range_def)

lemma put_reg_eff:
  assumes "inv (ts h)"
  obtains s' where "put_reg A r v h = h\<lparr>ts := s'\<rparr>" "inv s'" "memt s' = memt (ts h)"
    "regt s' = (\<lambda>q. if q = r \<or> q \<in> covers r then v else regt (ts h) q)"
  using set_reg [OF assms, of r v] by (auto simp: put_reg_def)

text \<open>Assigning a value to the place of the destination operand.\<close>

lemma assign_eff:
  assumes "inv (ts h)"
  obtains h' where
    "(case mem_place d of Some a \<Rightarrow> put_range A a v n h
      | None \<Rightarrow> (case reg_place d of Some r \<Rightarrow> Some (put_reg A r v h) | None \<Rightarrow> Some h)) = Some h'"
    "inv (ts h')" "memt (ts h') = assign_mem d v n (memt (ts h))"
    "regt (ts h') = assign_reg covers d v (regt (ts h))" "g_taint h' = g_taint h" "hs_exit h' = hs_exit h"
proof (cases d)
  case (PMem a)
  obtain s' where "put_range A a v n h = Some (h\<lparr>ts := s'\<rparr>)" "inv s'" "regt s' = regt (ts h)"
    "memt s' = (\<lambda>b. if b - a < n then v else memt (ts h) b)" by (rule put_range_eff [OF assms])
  with PMem show ?thesis by (intro that [of "h\<lparr>ts := s'\<rparr>"]) simp_all
next
  case (PReg r)
  obtain s' where "put_reg A r v h = h\<lparr>ts := s'\<rparr>" "inv s'" "memt s' = memt (ts h)"
    "regt s' = (\<lambda>q. if q = r \<or> q \<in> covers r then v else regt (ts h) q)" by (rule put_reg_eff [OF assms])
  with PReg show ?thesis by (intro that [of "h\<lparr>ts := s'\<rparr>"]) simp_all
qed (use assms in \<open>auto intro: that [of h]\<close>)

lemma MOV_eff:
  assumes "inv (ts h)" "operand_place env xd 1 = Some src" "operand_place env xd 0 = Some dst"
  shows "\<exists>h'. Instrument_MOV A env xd h = Some h' \<and> inv (ts h') \<and> g_taint h' = taint_of (memt (ts h)) (regt (ts h)) src \<and>
    memt (ts h') = assign_mem dst (taint_of (memt (ts h)) (regt (ts h)) src) (xd_operand_length xd 0) (memt (ts h)) \<and>
    regt (ts h') = assign_reg covers dst (taint_of (memt (ts h)) (regt (ts h)) src) (regt (ts h))"
proof -
  let ?v = "taint_of (memt (ts h)) (regt (ts h)) src"
  obtain g where 1: "hk_mem env xd 1 (h\<lparr>g_taint := 0\<rparr>) = Some (h\<lparr>g_taint := 0, og := g\<rparr>, mem_place src)"
    "hk_reg xd 1 = Some (reg_place src)"
    using hk_operand [OF assms(2), of "h\<lparr>g_taint := 0\<rparr>"] by metis
  obtain g' where 0: "hk_mem env xd 0 (h\<lparr>og := g, g_taint := ?v\<rparr>) = Some (h\<lparr>g_taint := ?v, og := g'\<rparr>, mem_place dst)"
    "hk_reg xd 0 = Some (reg_place dst)"
    by (rule hk_operand [OF assms(3), of "h\<lparr>og := g, g_taint := ?v\<rparr>"]) auto
  let ?h = "h\<lparr>g_taint := ?v, og := g'\<rparr>"
  have i: "inv (ts ?h)" using assms(1) by simp
  obtain h' where h': "(case mem_place dst of Some a \<Rightarrow> put_range A a ?v (xd_operand_length xd 0) ?h
      | None \<Rightarrow> (case reg_place dst of Some r \<Rightarrow> Some (put_reg A r ?v ?h) | None \<Rightarrow> Some ?h)) = Some h'"
    "inv (ts h')" "memt (ts h') = assign_mem dst ?v (xd_operand_length xd 0) (memt (ts ?h))"
    "regt (ts h') = assign_reg covers dst ?v (regt (ts ?h))" "g_taint h' = g_taint ?h"
    by (rule assign_eff [OF i])
  have "Instrument_MOV A env xd h = Some h'"
    using 1 0 h'(1) assms(1)
    by (cases src; cases dst) (simp_all add: Instrument_MOV_def get_mem get_reg)
  with h' show ?thesis by simp
qed

lemma Binary_imm:
  assumes "operand_place env xd 1 = Some PImm" "operand_place env xd 0 = Some dst"
  shows "\<exists>h'. Instrument_Binary_OP A env xd h = Some h' \<and> ts h' = ts h"
proof -
  obtain g op where 1: "hk_mem env xd 1 (h\<lparr>g_taint := 0\<rparr>) = Some (h\<lparr>g_taint := 0, og := g\<rparr>, None)"
    "operand_at xd 1 = Some op" "operand_is_reg xd op = None" "operand_is_imm xd op \<noteq> None"
    by (rule hk_operand [OF assms(1), of "h\<lparr>g_taint := 0\<rparr>"]) auto
  obtain op0 where "operand_at xd 0 = Some op0" by (rule hk_operand [OF assms(2), of h])
  with 1 show ?thesis by (simp add: Instrument_Binary_OP_def)
qed

lemma Binary_eff:
  assumes "inv (ts h)" "operand_place env xd 1 = Some src" "operand_place env xd 0 = Some dst" "src \<noteq> PImm"
  defines "v \<equiv> taint_of (memt (ts h)) (regt (ts h)) src OR taint_of (memt (ts h)) (regt (ts h)) dst"
  shows "\<exists>h'. Instrument_Binary_OP A env xd h = Some h' \<and> inv (ts h') \<and> g_taint h' = v \<and>
    memt (ts h') = assign_mem dst v (xd_operand_length xd 0) (memt (ts h)) \<and>
    regt (ts h') = assign_reg covers dst v (regt (ts h))"
proof -
  let ?u = "taint_of (memt (ts h)) (regt (ts h)) src"
  obtain g op where 1: "hk_mem env xd 1 (h\<lparr>g_taint := 0\<rparr>) = Some (h\<lparr>g_taint := 0, og := g\<rparr>, mem_place src)"
    "operand_at xd 1 = Some op" "operand_is_reg xd op = reg_place src" "operand_is_imm xd op = None"
    by (rule hk_operand [OF assms(2), of "h\<lparr>g_taint := 0\<rparr>"]) (use assms(4) in auto)
  obtain g' op' where 0: "hk_mem env xd 0 (h\<lparr>og := g, g_taint := ?u\<rparr>) = Some (h\<lparr>g_taint := ?u, og := g'\<rparr>, mem_place dst)"
    "operand_at xd 0 = Some op'" "operand_is_reg xd op' = reg_place dst"
    by (rule hk_operand [OF assms(3), of "h\<lparr>og := g, g_taint := ?u\<rparr>"]) auto
  let ?h = "h\<lparr>og := g', g_taint := v\<rparr>"
  have i: "inv (ts ?h)" using assms(1) by simp
  obtain h' where h': "(case mem_place dst of Some a \<Rightarrow> put_range A a v (xd_operand_length xd 0) ?h
      | None \<Rightarrow> (case reg_place dst of Some r \<Rightarrow> Some (put_reg A r v ?h) | None \<Rightarrow> Some ?h)) = Some h'"
    "inv (ts h')" "memt (ts h') = assign_mem dst v (xd_operand_length xd 0) (memt (ts ?h))"
    "regt (ts h') = assign_reg covers dst v (regt (ts ?h))" "g_taint h' = g_taint ?h"
    by (rule assign_eff [OF i])
  have "Instrument_Binary_OP A env xd h = Some h'"
    using 1 0 h'(1) assms(1,4)
    by (cases src; cases dst) (simp_all add: Instrument_Binary_OP_def get_mem get_reg v_def Let_def og_swap)
  with h' show ?thesis by simp
qed

text \<open>Every hook returns and keeps the store, when the operands resolve.\<close>

lemma returns_range:
  assumes "inv (ts h)"
  shows "returns inv (put_range A a v n h)"
    "(\<And>h'. inv (ts h') \<Longrightarrow> returns inv (f h')) \<Longrightarrow> returns inv (put_range A a v n h \<bind> f)"
  by (rule put_range_eff [OF assms, of a v n]; auto simp: returns_def)+

lemma put_reg_inv [simp]: "inv (ts h) \<Longrightarrow> inv (ts (put_reg A r v h))"
  by (rule put_reg_eff [of h r v]) auto

lemma returns_mem:
  assumes "operand_place env xd i = Some p" "\<And>g. returns inv (f (h\<lparr>og := g\<rparr>, mem_place p))"
  shows "returns inv (hk_mem env xd i h \<bind> f)"
  by (rule hk_operand [OF assms(1), of h]) (simp add: assms(2))

lemma resolved_reg: "operand_place env xd i = Some p \<Longrightarrow> hk_reg xd i = Some (reg_place p)"
  by (rule hk_operand)

lemmas returns_intros = returns_range returns_mem

lemma MOV_returns:
  assumes "inv (ts h)" "operand_place env xd 0 = Some p0" "operand_place env xd 1 = Some p1"
  shows "returns inv (Instrument_MOV A env xd h)"
  using MOV_eff [OF assms(1,3,2)] by (auto simp: returns_def)

lemma Binary_returns:
  assumes "inv (ts h)" "operand_place env xd 0 = Some p0" "operand_place env xd 1 = Some p1"
  shows "returns inv (Instrument_Binary_OP A env xd h)"
proof (cases "p1 = PImm")
  case True
  with Binary_imm [of env xd p0 h] assms show ?thesis by (auto simp: returns_def)
next
  case False
  with Binary_eff [OF assms(1,3,2)] show ?thesis by (auto simp: returns_def)
qed

lemma register_hooks_return:
  assumes "inv (ts h)" "operand_place env xd 0 = Some p0" "operand_place env xd 1 = Some p1"
  shows "returns inv (Instrument_LEA A env xd h)" "returns inv (Instrument_SETcc A env xd h)"
    "returns inv (Instrument_CMOVcc A env xd h)" "returns inv (Instrument_XOR A env xd h)"
  using assms MOV_returns [OF assms] Binary_returns [OF assms]
  by (auto simp: Instrument_LEA_def Instrument_SETcc_def Instrument_CMOVcc_def Instrument_XOR_def Let_def
      resolved_reg intro!: returns_intros split: option.split)

lemma XADD_returns:
  assumes "inv (ts h)" "operand_place env xd 0 = Some p0" "operand_place env xd 1 = Some p1"
  shows "returns inv (Instrument_XADD A env xd h)"
  using assms Binary_returns [OF _ assms(2,3)]
  by (cases p0; cases p1)
    (auto simp: Instrument_XADD_def Let_def resolved_reg get_mem intro!: returns_intros)

lemma string_hooks_return:
  assumes "inv (ts h)" "operand_place env xd 0 = Some p0" "operand_place env xd 1 = Some p1"
    "PEMU_get_reg env XED_REG_ECX = Some c" "PEMU_get_reg env XED_REG_ESI = Some si" "PEMU_get_reg env XED_REG_EDI = Some di"
  shows "returns inv (Instrument_LODSX A env xd h)" "returns inv (Instrument_STOSX A env xd h)"
    "returns inv (Instrument_MOVSBWD A env xd h)"
  using assms
  by (auto simp: Instrument_LODSX_def Instrument_STOSX_def Instrument_MOVSBWD_def rep_done_def Let_def get_mem
      intro!: returns_intros split: option.split)

lemma pushad_returns: "inv (ts h) \<Longrightarrow> returns inv (pushad_loop A rs a h)"
proof (induction rs arbitrary: a h)
  case (Cons r rs)
  obtain s1 where "set_mem_taint A a (get_reg_taint A r (ts h)) (ts h) = Some s1" "inv s1"
    using set_mem [OF Cons.prems] by blast
  with Cons.IH [of "h\<lparr>ts := s1\<rparr>" "a - 4"] show ?case by simp
qed simp

lemma popad_returns: "inv (ts h) \<Longrightarrow> returns inv (popad_loop A rs a h)"
  by (induction rs arbitrary: a h) (auto simp: get_mem intro!: returns_intros)

lemma stack_hooks_return:
  assumes "inv (ts h)" "operand_place env xd 0 = Some p0" "PEMU_get_reg env XED_REG_ESP = Some sp"
  shows "returns inv (Instrument_PUSH A env xd h)" "returns inv (Instrument_PUSHFD A env h)"
    "returns inv (Instrument_POP A env xd h)" "returns inv (Instrument_PUSHAD A env h)"
    "returns inv (Instrument_POPAD A env h)"
proof -
  obtain op where "operand_at xd 0 = Some op" by (rule hk_operand [OF assms(2), of h])
  then show "returns inv (Instrument_PUSH A env xd h)"
    using assms by (cases p0) (auto simp: Instrument_PUSH_def Let_def get_mem intro!: returns_intros
        split: option.split)
  show "returns inv (Instrument_POP A env xd h)"
    using assms by (cases p0) (auto simp: Instrument_POP_def Let_def get_mem resolved_reg intro!: returns_intros)
qed (use assms in \<open>simp_all add: Instrument_PUSHFD_def Instrument_PUSHAD_def Instrument_POPAD_def
    returns_intros pushad_returns popad_returns\<close>)

lemma call_hook_returns:
  assumes "inv (ts h)" "operand_place env xd 0 = Some p0" "operand_place env xd 1 = Some p1"
  shows "returns inv (call_hook A env xd f h)"
proof -
  obtain c si di sp where "PEMU_get_reg env XED_REG_ECX = Some c" "PEMU_get_reg env XED_REG_ESI = Some si"
    "PEMU_get_reg env XED_REG_EDI = Some di" "PEMU_get_reg env XED_REG_ESP = Some sp"
    using hook_regs_get by blast
  note string_hooks_return [OF assms this(1-3)] stack_hooks_return [OF assms(1,2) this(4)]
    MOV_returns [OF assms] Binary_returns [OF assms] register_hooks_return [OF assms] XADD_returns [OF assms]
  with assms(1) show ?thesis
    by (cases f) (simp_all add: UnimplementedInstruction_def Instrument_CALL_def Instrument_RET_def
        Instrument_NONE_def Instrument_CMP_def Instrument_POPFD_def)
qed

lemma propagate_returns:
  assumes "inv (ts h)" "operand_place env xd 0 = Some p0" "operand_place env xd 1 = Some p1"
  shows "returns inv (propagate A env xd h)"
proof -
  obtain h1 where "call_hook A env xd (instrument_functions (xd_iclass xd)) (h\<lparr>g_taint := 0\<rparr>) = Some h1" "inv (ts h1)"
    using call_hook_returns [of "h\<lparr>g_taint := 0\<rparr>", OF _ assms(2,3)] assms(1) by (auto simp: returns_def)
  with assms(2) show ?thesis
    by (auto simp: propagate_def taint_mem_access0_def get_mem intro!: returns_intros split: option.split)
qed

text \<open>Stack instructions.\<close>

lemma PUSH_eff:
  assumes "inv (ts h)" "PEMU_get_reg env XED_REG_ESP = Some sp" "operand_place env xd 0 = Some src" "src \<noteq> PNone"
  defines "v \<equiv> taint_of (memt (ts h)) (regt (ts h)) src"
  shows "\<exists>h'. Instrument_PUSH A env xd h = Some h' \<and> inv (ts h') \<and> regt (ts h') = regt (ts h) \<and>
    memt (ts h') = (\<lambda>b. if b - (sp - 4) < 4 then v else memt (ts h) b)"
proof -
  obtain g op where 0: "hk_mem env xd 0 (h\<lparr>g_taint := 0\<rparr>) = Some (h\<lparr>g_taint := 0, og := g\<rparr>, mem_place src)"
    "operand_at xd 0 = Some op" "operand_is_reg xd op = reg_place src" "operand_is_imm xd op \<noteq> None \<longleftrightarrow> src = PImm"
    by (rule hk_operand [OF assms(3), of "h\<lparr>g_taint := 0\<rparr>"]) auto
  obtain s1 where s1: "set_mem_taint_bysize A (sp - 4) v 4 (ts h) = Some s1" "inv s1" "regt s1 = regt (ts h)"
    "memt s1 = (\<lambda>b. if b - (sp - 4) < 4 then v else memt (ts h) b)"
    using set_range [OF assms(1), of "sp - 4" v 4] by auto
  show ?thesis
    using 0 s1 assms(1,2,4)
    by (cases src) (simp_all add: Instrument_PUSH_def Let_def get_mem get_reg v_def put_range_def og_swap)
qed

lemma POP_eff:
  assumes "inv (ts h)" "PEMU_get_reg env XED_REG_ESP = Some sp" "operand_place env xd 0 = Some dst"
  defines "v \<equiv> memt (ts h) sp"
  shows "\<exists>h'. Instrument_POP A env xd h = Some h' \<and> inv (ts h') \<and>
    regt (ts h') = assign_reg covers dst v (regt (ts h)) \<and>
    memt (ts h') = (if mem_place dst = None then memt (ts h) else (\<lambda>b. if b - sp < 4 then v else memt (ts h) b))"
proof -
  obtain g where 0: "hk_mem env xd 0 (h\<lparr>g_taint := v\<rparr>) = Some (h\<lparr>g_taint := v, og := g\<rparr>, mem_place dst)"
    "hk_reg xd 0 = Some (reg_place dst)"
    by (rule hk_operand [OF assms(3), of "h\<lparr>g_taint := v\<rparr>"]) auto
  obtain s1 where s1: "set_mem_taint_bysize A sp v 4 (ts h) = Some s1" "inv s1" "regt s1 = regt (ts h)"
    "memt s1 = (\<lambda>b. if b - sp < 4 then v else memt (ts h) b)"
    using set_range [OF assms(1), of sp v 4] by auto
  show ?thesis
    using 0 s1 assms(1,2) set_reg [OF assms(1)] get_mem [OF assms(1), of sp]
    by (cases dst) (simp_all add: Instrument_POP_def Let_def v_def put_range_def put_reg_def)
qed

lemma pushad_loop_eff:
  assumes "inv (ts h)" "length rs \<le> 8"
  shows "\<exists>h'. pushad_loop A rs a h = Some h' \<and> inv (ts h') \<and> regt (ts h') = regt (ts h) \<and>
    (\<forall>i<length rs. memt (ts h') (a - 4 * word_of_nat i) = regt (ts h) (rs ! i)) \<and>
    (\<forall>b. (\<forall>i<length rs. b \<noteq> a - 4 * word_of_nat i) \<longrightarrow> memt (ts h') b = memt (ts h) b)"
  using assms
proof (induction rs arbitrary: a h)
  case (Cons r rs)
  obtain s1 where s1: "set_mem_taint A a (get_reg_taint A r (ts h)) (ts h) = Some s1" "inv s1"
    "memt s1 = (memt (ts h))(a := regt (ts h) r)" "regt s1 = regt (ts h)"
    using set_mem [OF Cons.prems(1), of a "get_reg_taint A r (ts h)"] by (auto simp: get_reg)
  obtain h' where h': "pushad_loop A rs (a - 4) (h\<lparr>ts := s1\<rparr>) = Some h'" "inv (ts h')" "regt (ts h') = regt s1"
    "\<And>i. i < length rs \<Longrightarrow> memt (ts h') (a - 4 - 4 * word_of_nat i) = regt s1 (rs ! i)"
    "\<And>b. (\<And>i. i < length rs \<Longrightarrow> b \<noteq> a - 4 - 4 * word_of_nat i) \<Longrightarrow> memt (ts h') b = memt s1 b"
    using Cons.IH [of "h\<lparr>ts := s1\<rparr>" "a - 4"] s1(2) Cons.prems(2) by auto
  have first: "memt (ts h') a = regt (ts h) r"
    using h'(5) [of a] slot_apart(1) [of _ a] Cons.prems(2) s1(3) by simp
  have "memt (ts h') (a - 4 * word_of_nat i) = regt (ts h) ((r # rs) ! i)" if "i < length (r # rs)" for i
    using that first h'(4) [of "i - 1"] s1(4) by (cases i) (simp_all add: algebra_simps)
  moreover have "memt (ts h') b = memt (ts h) b" if b: "\<forall>i<length (r # rs). b \<noteq> a - 4 * word_of_nat i" for b
  proof -
    have "b \<noteq> a" using b [rule_format, of 0] by simp
    moreover have "b \<noteq> a - 4 - 4 * word_of_nat i" if "i < length rs" for i
      using b [rule_format, of "Suc i"] that by (simp add: algebra_simps)
    ultimately show ?thesis using h'(5) [of b] s1(3) by simp
  qed
  ultimately show ?case using s1(1,4) h'(1-3) by auto
qed simp

lemma popad_loop_eff:
  assumes "inv (ts h)" "length rs \<le> 8" "distinct rs" "\<And>q r. q \<in> set rs \<Longrightarrow> r \<in> set rs \<Longrightarrow> q \<notin> covers r"
  shows "\<exists>h'. popad_loop A rs a h = Some h' \<and> inv (ts h') \<and>
    (\<forall>i<length rs. regt (ts h') (rs ! i) = memt (ts h) (a + 4 * word_of_nat i)) \<and>
    (\<forall>q. q \<notin> set rs \<longrightarrow> (\<forall>r\<in>set rs. q \<notin> covers r) \<longrightarrow> regt (ts h') q = regt (ts h) q)"
  using assms
proof (induction rs arbitrary: a h)
  case (Cons r rs)
  let ?v = "memt (ts h) a"
  let ?s = "set_reg_taint A r ?v (ts h)"
  have s: "inv ?s" "memt ?s = memt (ts h)" "regt ?s = (\<lambda>q. if q = r \<or> q \<in> covers r then ?v else regt (ts h) q)"
    using set_reg [OF Cons.prems(1), of r ?v] by auto
  obtain s1 where s1: "set_mem_taint_bysize A a 0 4 ?s = Some s1" "inv s1" "regt s1 = regt ?s"
    "memt s1 = (\<lambda>b. if b - a < 4 then 0 else memt ?s b)"
    using set_range [OF s(1), of a 0 4] by auto
  have m1: "memt s1 (a + 4 + 4 * word_of_nat i) = memt (ts h) (a + 4 + 4 * word_of_nat i)" if "i < length rs" for i
    using slot_apart(2) [of i a] that Cons.prems(2) s(2) s1(4) by simp
  obtain h' where h': "popad_loop A rs (a + 4) (h\<lparr>ts := s1\<rparr>) = Some h'" "inv (ts h')"
    "\<And>i. i < length rs \<Longrightarrow> regt (ts h') (rs ! i) = memt s1 (a + 4 + 4 * word_of_nat i)"
    "\<And>q. q \<notin> set rs \<Longrightarrow> \<forall>r\<in>set rs. q \<notin> covers r \<Longrightarrow> regt (ts h') q = regt s1 q"
    using Cons.IH [of "h\<lparr>ts := s1\<rparr>" "a + 4"] s1(2) Cons.prems(2-4) by auto
  have first: "regt (ts h') r = ?v"
    using h'(4) [of r] Cons.prems(3,4) s(3) s1(3) by simp
  have "regt (ts h') ((r # rs) ! i) = memt (ts h) (a + 4 * word_of_nat i)" if "i < length (r # rs)" for i
    using that first h'(3) [of "i - 1"] m1 [of "i - 1"] by (cases i) (simp_all add: algebra_simps)
  moreover have "regt (ts h') q = regt (ts h) q"
    if "q \<notin> set (r # rs)" "\<forall>r\<in>set (r # rs). q \<notin> covers r" for q
    using that h'(4) [of q] s(3) s1(3) by simp
  moreover have "popad_loop A (r # rs) a h = Some h'"
    using h'(1) s1(1) get_mem [OF Cons.prems(1), of a] by (simp add: put_range_def put_reg_def)
  ultimately show ?case using h'(2) by blast
qed simp

lemma PUSHAD_POPAD_eff:
  assumes "inv (ts h)" "PEMU_get_reg env' XED_REG_ESP = Some (regs env (nat R_ESP) - 32)"
    "\<And>q r. q \<in> set popad_regs \<Longrightarrow> r \<in> set popad_regs \<Longrightarrow> q \<notin> covers r"
  shows "\<exists>h1 h2. Instrument_PUSHAD A env h = Some h1 \<and> Instrument_POPAD A env' h1 = Some h2 \<and> inv (ts h2) \<and>
    (\<forall>r\<in>set pushad_regs. regt (ts h2) r = regt (ts h) r)"
proof -
  let ?sp = "regs env (nat R_ESP)"
  have rs: "popad_regs = rev pushad_regs" "length pushad_regs = 8" by (simp_all add: popad_regs_def pushad_regs_def)
  have l8: "length popad_regs = 8" by (simp add: popad_regs_def)
  have d: "distinct popad_regs" by (simp add: popad_regs_def XED_REG_defs)
  obtain h1 where h1: "pushad_loop A pushad_regs (?sp - 4) h = Some h1" "inv (ts h1)"
    "\<And>i. i < 8 \<Longrightarrow> memt (ts h1) (?sp - 4 - 4 * word_of_nat i) = regt (ts h) (pushad_regs ! i)"
    using pushad_loop_eff [OF assms(1), of pushad_regs "?sp - 4"] rs by auto
  obtain h2 where h2: "popad_loop A popad_regs (?sp - 32) h1 = Some h2" "inv (ts h2)"
    "\<And>i. i < 8 \<Longrightarrow> regt (ts h2) (popad_regs ! i) = memt (ts h1) (?sp - 32 + 4 * word_of_nat i)"
    using popad_loop_eff [OF h1(2) _ d assms(3), of "?sp - 32"] l8 by auto
  have "regt (ts h2) (pushad_regs ! j) = regt (ts h) (pushad_regs ! j)" if j: "j < 8" for j
  proof -
    have "8 - Suc (7 - j) = j" using j by simp
    then have p: "popad_regs ! (7 - j) = pushad_regs ! j"
      unfolding rs(1) using rev_nth [of "7 - j" pushad_regs] rs(2) by simp
    have e: "?sp - 32 + 4 * word_of_nat (7 - j) = ?sp - 4 - 4 * word_of_nat j"
      using j by (simp add: of_nat_diff algebra_simps)
    have "regt (ts h2) (popad_regs ! (7 - j)) = memt (ts h1) (?sp - 4 - 4 * word_of_nat j)"
      unfolding e [symmetric] by (rule h2(3)) simp
    with h1(3) [OF j] p show ?thesis by simp
  qed
  then have "\<forall>r\<in>set pushad_regs. regt (ts h2) r = regt (ts h) r"
    using rs(2) by (auto simp: in_set_conv_nth)
  then show ?thesis
    using h1(1) h2(1,2) assms(2) by (auto simp: Instrument_PUSHAD_def Instrument_POPAD_def)
qed

end

section \<open>The store of \<open>taint2.c\<close>\<close>

text \<open>A state for the witnesses: nothing tainted but \<open>ESI\<close>.\<close>

definition wit_taint :: taint2 where
  "wit_taint = \<lparr>t2_mem = init_shadow_memory shadow0, regTaint = (\<lambda>_. 0)(XED_REG_ESI := 5), FDregTaint = \<lambda>_. 0\<rparr>"

definition wit_state :: "taint2 hook_state" where
  "wit_state = \<lparr>ts = wit_taint, og = test_globals, g_taint = 0, g_pc = 0, g_opcode = ''MOV'',
     kernel_stack_min = 0, kernel_stack_max = 0,
     sargs = \<lparr>sa_ebx = 0, sa_ecx = 0, sa_edx = 0, sa_esi = 0, sa_edi = 0, sa_ebp = 0\<rparr>, hs_log = [], hs_exit = False\<rparr>"

definition wit_inst :: "xed_operand list \<Rightarrow> xed_decoded_inst" where
  "wit_inst ops = (test_inst XED_OPERAND_MEM0 0)\<lparr>xd_operands := ops\<rparr>"

lemma wit_ok: "t2_ok (ts wit_state)"
  using init_shadow_ok by (simp add: wit_state_def wit_taint_def t2_ok_def)

definition lower_esp :: "u32 \<Rightarrow> CPUX86State" where
  "lower_esp k = test_env\<lparr>regs := (regs test_env)(4 := 0x400 - k)\<rparr>"

lemma wit_facts:
  "operand_place test_env (wit_inst [XED_OPERAND_MEM0, XED_OPERAND_REG 0]) 0 = Some (PMem 0x6FC) \<and>
   operand_place test_env (wit_inst [XED_OPERAND_MEM0, XED_OPERAND_REG 0]) 1 = Some (PReg XED_REG_ESI) \<and>
   operand_place test_env (wit_inst [XED_OPERAND_REG 0]) 0 = Some (PReg XED_REG_ESI) \<and>
   operand_place (lower_esp 4) (wit_inst [XED_OPERAND_REG 0]) 0 = Some (PReg XED_REG_ESI) \<and>
   PEMU_get_reg test_env XED_REG_ESP = Some 0x400 \<and>
   PEMU_get_reg (lower_esp 4) XED_REG_ESP = Some (0x400 - 4) \<and>
   PEMU_get_reg (lower_esp 32) XED_REG_ESP = Some (regs test_env (nat R_ESP) - 32)"
  by code_simp

lemmas wit_places = wit_facts [THEN conjunct1] wit_facts [THEN conjunct2, THEN conjunct1]
  wit_facts [THEN conjunct2, THEN conjunct2, THEN conjunct1]

text \<open>
  C4: the move hook makes the destination operand carry the taint of the source operand, over
  the whole operand length in memory and over the register with its parts, and changes no other
  taint; the arithmetic hook joins the taints of both operands in the destination, and leaves
  the taint alone when the source is an immediate. Both return whenever the operands resolve.
\<close>

theorem taint_flow:
  fixes h :: "taint2 hook_state"
  assumes "sm_malloc_ok mal" "sm_malloc_total mal" "t2_ok (ts h)"
    and "operand_place env xd 1 = Some src" "operand_place env xd 0 = Some dst"
  defines "t \<equiv> taint_of (t2_mem_taint (ts h)) (regTaint (ts h))" and "n \<equiv> xd_operand_length xd 0"
  shows "(\<exists>h'. Instrument_MOV (t2_api mal) env xd h = Some h' \<and> t2_ok (ts h') \<and>
      t2_mem_taint (ts h') = assign_mem dst (t src) n (t2_mem_taint (ts h)) \<and>
      regTaint (ts h') = assign_reg (\<lambda>r. set (parts r)) dst (t src) (regTaint (ts h)))
    \<and> (\<exists>h'. Instrument_Binary_OP (t2_api mal) env xd h = Some h' \<and> t2_ok (ts h') \<and>
      t2_mem_taint (ts h') = (if src = PImm then t2_mem_taint (ts h)
        else assign_mem dst (t src OR t dst) n (t2_mem_taint (ts h))) \<and>
      regTaint (ts h') = (if src = PImm then regTaint (ts h)
        else assign_reg (\<lambda>r. set (parts r)) dst (t src OR t dst) (regTaint (ts h))))"
proof (intro conjI)
  note T = t2_store [OF assms(1,2)]
  show "\<exists>h'. Instrument_MOV (t2_api mal) env xd h = Some h' \<and> t2_ok (ts h') \<and>
      t2_mem_taint (ts h') = assign_mem dst (t src) n (t2_mem_taint (ts h)) \<and>
      regTaint (ts h') = assign_reg (\<lambda>r. set (parts r)) dst (t src) (regTaint (ts h))"
    using taint_store.MOV_eff [OF T assms(3-5)] by (auto simp: t_def n_def)
  show "\<exists>h'. Instrument_Binary_OP (t2_api mal) env xd h = Some h' \<and> t2_ok (ts h') \<and>
      t2_mem_taint (ts h') = (if src = PImm then t2_mem_taint (ts h)
        else assign_mem dst (t src OR t dst) n (t2_mem_taint (ts h))) \<and>
      regTaint (ts h') = (if src = PImm then regTaint (ts h)
        else assign_reg (\<lambda>r. set (parts r)) dst (t src OR t dst) (regTaint (ts h)))"
  proof (cases "src = PImm")
    case True
    with assms(4) have "operand_place env xd 1 = Some PImm" by simp
    from taint_store.Binary_imm [OF T this assms(5), of h] show ?thesis using True assms(3) by auto
  next
    case False
    with taint_store.Binary_eff [OF T assms(3-5) False] show ?thesis by (auto simp: t_def n_def)
  qed
qed

theorem taint_flow_witness:
  "\<exists>h'. Instrument_MOV (t2_api sm_first_free) test_env (wit_inst [XED_OPERAND_MEM0, XED_OPERAND_REG 0]) wit_state = Some h' \<and>
     t2_mem_taint (ts h') 0x6FF = 5"
proof -
  have "regTaint (ts wit_state) XED_REG_ESI = 5" by (simp add: wit_state_def wit_taint_def)
  moreover have "xd_operand_length (wit_inst [XED_OPERAND_MEM0, XED_OPERAND_REG 0]) 0 = 4"
    by (simp add: wit_inst_def test_inst_def)
  ultimately show ?thesis
    using taint_flow [OF sm_first_free_ok sm_first_free_total wit_ok wit_places(2,1)] by auto
qed

text \<open>
  C22: pushing an operand and popping into a register (the stack pointer lowered by four in
  between) gives the register the taint of the pushed operand; \<open>PUSHAD\<close> followed by
  \<open>POPAD\<close> gives all eight registers their taint back.
\<close>

theorem push_pop_taint:
  fixes h :: "taint2 hook_state"
  assumes "sm_malloc_ok mal" "sm_malloc_total mal" "t2_ok (ts h)"
    and "PEMU_get_reg env XED_REG_ESP = Some sp" "operand_place env xd 0 = Some src" "src \<noteq> PNone"
    and "PEMU_get_reg env1 XED_REG_ESP = Some (sp - 4)" "operand_place env1 xd1 0 = Some (PReg r)"
    and "PEMU_get_reg env2 XED_REG_ESP = Some (regs env (nat R_ESP) - 32)"
  shows "(\<exists>h1 h2. Instrument_PUSH (t2_api mal) env xd h = Some h1 \<and> Instrument_POP (t2_api mal) env1 xd1 h1 = Some h2 \<and>
      regTaint (ts h2) r = taint_of (t2_mem_taint (ts h)) (regTaint (ts h)) src)
    \<and> (\<exists>h1 h2. Instrument_PUSHAD (t2_api mal) env h = Some h1 \<and> Instrument_POPAD (t2_api mal) env2 h1 = Some h2 \<and>
      (\<forall>q\<in>set pushad_regs. regTaint (ts h2) q = regTaint (ts h) q))"
proof
  note T = t2_store [OF assms(1,2)]
  obtain h1 where h1: "Instrument_PUSH (t2_api mal) env xd h = Some h1" "t2_ok (ts h1)"
    "t2_mem_taint (ts h1) (sp - 4) = taint_of (t2_mem_taint (ts h)) (regTaint (ts h)) src"
    using taint_store.PUSH_eff [OF T assms(3-6)] by auto
  obtain h2 where "Instrument_POP (t2_api mal) env1 xd1 h1 = Some h2"
    "regTaint (ts h2) = assign_reg (\<lambda>r. set (parts r)) (PReg r) (t2_mem_taint (ts h1) (sp - 4)) (regTaint (ts h1))"
    using taint_store.POP_eff [OF T h1(2) assms(7,8)] by auto
  with h1 show "\<exists>h1 h2. Instrument_PUSH (t2_api mal) env xd h = Some h1 \<and> Instrument_POP (t2_api mal) env1 xd1 h1 = Some h2 \<and>
      regTaint (ts h2) r = taint_of (t2_mem_taint (ts h)) (regTaint (ts h)) src" by auto
  have "q \<notin> set (parts r)" if "q \<in> set popad_regs" "r \<in> set popad_regs" for q r
    using that by (auto simp: popad_regs_def parts_def XED_REG_defs)
  then show "\<exists>h1 h2. Instrument_PUSHAD (t2_api mal) env h = Some h1 \<and> Instrument_POPAD (t2_api mal) env2 h1 = Some h2 \<and>
      (\<forall>q\<in>set pushad_regs. regTaint (ts h2) q = regTaint (ts h) q)"
    using taint_store.PUSHAD_POPAD_eff [OF T assms(3,9)] by blast
qed

theorem push_pop_taint_witness:
  "\<exists>h1 h2. Instrument_PUSH (t2_api sm_first_free) test_env (wit_inst [XED_OPERAND_REG 0]) wit_state = Some h1 \<and>
     Instrument_POP (t2_api sm_first_free) (lower_esp 4) (wit_inst [XED_OPERAND_REG 0]) h1 = Some h2 \<and>
     regTaint (ts h2) XED_REG_ESI = 5"
proof -
  have "regTaint (ts wit_state) XED_REG_ESI = 5" by (simp add: wit_state_def wit_taint_def)
  with wit_facts show ?thesis
    using push_pop_taint [OF sm_first_free_ok sm_first_free_total wit_ok,
        of test_env "0x400" "wit_inst [XED_OPERAND_REG 0]" "PReg XED_REG_ESI" "lower_esp 4"
          "wit_inst [XED_OPERAND_REG 0]" XED_REG_ESI "lower_esp 32"] by simp
qed

text \<open>
  Popping into memory loses the taint: the hook writes the taint back to the stack slot it
  came from, so the destination and every other address outside the slot keep the taint they had,
  and so do all registers.
\<close>

theorem pop_memory_loses_taint:
  fixes h :: "taint2 hook_state"
  assumes "sm_malloc_ok mal" "sm_malloc_total mal" "t2_ok (ts h)"
    and "PEMU_get_reg env XED_REG_ESP = Some sp" "operand_place env xd 0 = Some (PMem a)"
  shows "\<exists>h'. Instrument_POP (t2_api mal) env xd h = Some h' \<and> regTaint (ts h') = regTaint (ts h) \<and>
    t2_mem_taint (ts h') = (\<lambda>b. if b - sp < 4 then t2_mem_taint (ts h) sp else t2_mem_taint (ts h) b)"
  using taint_store.POP_eff [OF t2_store [OF assms(1,2)] assms(3-5)] by auto

theorem pop_memory_loses_taint_witness:
  "\<exists>h'. Instrument_POP (t2_api sm_first_free) test_env (wit_inst [XED_OPERAND_MEM0, XED_OPERAND_REG 0]) wit_state = Some h' \<and>
     t2_mem_taint (ts h') 0x6FC = t2_mem_taint (ts wit_state) 0x6FC"
  using pop_memory_loses_taint [OF sm_first_free_ok sm_first_free_total wit_ok _ wit_places(1), of "0x400"] wit_facts
  by auto



end
