(* ===== verification/IntHelper.thy ===== *)
theory IntHelper
  imports CcHelper "HOL-Library.Signed_Division"
begin

text \<open>
  The integer helpers of \<open>target-i386/int_helper.c\<close> and \<open>shift_helper_template.h\<close>: division, the
  decimal adjustments, the 128-bit division of the 64-bit target, bit scatter and gather,
  and the rotations through carry. A helper that raises a guest exception returns \<open>Inl\<close>; a C
  operation without a defined result (a signed quotient that does not fit, a division by zero)
  is \<open>None\<close>. The 64-bit division works on two 64-bit halves and is modelled as such; its two
  callers read 64-bit registers and are not part of the 32-bit target.
\<close>

unbundle bit_operations_syntax

section \<open>Division\<close>

datatype int_exn = EXCP00_DIVZ

type_synonym helper_result = "int_exn + CPUX86State"

definition get_r :: "CPUX86State \<Rightarrow> int \<Rightarrow> u32" where
  "get_r env r = regs env (nat r)"

definition put_r :: "int \<Rightarrow> u32 \<Rightarrow> CPUX86State \<Rightarrow> CPUX86State" where
  "put_r r v env = env\<lparr>regs := (regs env)(nat r := v)\<rparr>"

definition helper_divb_AL :: "CPUX86State \<Rightarrow> u32 \<Rightarrow> helper_result" where
  "helper_divb_AL env t0 =
     (let num = get_r env R_EAX AND 0xffff; den = t0 AND 0xff in
      if den = 0 then Inl EXCP00_DIVZ
      else let q = num div den in
        if q > 0xff then Inl EXCP00_DIVZ
        else let q = q AND 0xff; r = (num mod den) AND 0xff in
          Inr (put_r R_EAX ((get_r env R_EAX AND NOT 0xffff) OR push_bit 8 r OR q) env))"

definition helper_idivb_AL :: "CPUX86State \<Rightarrow> u32 \<Rightarrow> helper_result" where
  "helper_idivb_AL env t0 =
     (let num = sint (ucast (get_r env R_EAX) :: 16 word); den = sint (ucast t0 :: 8 word) in
      if den = 0 then Inl EXCP00_DIVZ
      else let q = num sdiv den in
        if q \<noteq> sint (word_of_int q :: 8 word) then Inl EXCP00_DIVZ
        else let q = word_of_int q AND 0xff; r = word_of_int (num smod den) AND 0xff in
          Inr (put_r R_EAX ((get_r env R_EAX AND NOT 0xffff) OR push_bit 8 r OR q) env))"

definition helper_divw_AX :: "CPUX86State \<Rightarrow> u32 \<Rightarrow> helper_result" where
  "helper_divw_AX env t0 =
     (let num = (get_r env R_EAX AND 0xffff) OR push_bit 16 (get_r env R_EDX AND 0xffff); den = t0 AND 0xffff in
      if den = 0 then Inl EXCP00_DIVZ
      else let q = num div den in
        if q > 0xffff then Inl EXCP00_DIVZ
        else let q = q AND 0xffff; r = (num mod den) AND 0xffff in
          Inr (put_r R_EDX ((get_r env R_EDX AND NOT 0xffff) OR r)
            (put_r R_EAX ((get_r env R_EAX AND NOT 0xffff) OR q) env)))"

definition helper_idivw_AX :: "CPUX86State \<Rightarrow> u32 \<Rightarrow> helper_result option" where
  "helper_idivw_AX env t0 =
     (let num = sint ((get_r env R_EAX AND 0xffff) OR push_bit 16 (get_r env R_EDX AND 0xffff));
          den = sint (ucast t0 :: 16 word) in
      if den = 0 then Some (Inl EXCP00_DIVZ)
      else if num = - (2 ^ 31) \<and> den = - 1 then None
      else let q = num sdiv den in
        if q \<noteq> sint (word_of_int q :: 16 word) then Some (Inl EXCP00_DIVZ)
        else let q = word_of_int q AND 0xffff; r = word_of_int (num smod den) AND 0xffff in
          Some (Inr (put_r R_EDX ((get_r env R_EDX AND NOT 0xffff) OR r)
            (put_r R_EAX ((get_r env R_EAX AND NOT 0xffff) OR q) env))))"

definition edx_eax :: "CPUX86State \<Rightarrow> u64" where
  "edx_eax env = ucast (get_r env R_EAX) OR push_bit 32 (ucast (get_r env R_EDX))"

definition helper_divl_EAX :: "CPUX86State \<Rightarrow> u32 \<Rightarrow> helper_result" where
  "helper_divl_EAX env t0 =
     (let num = edx_eax env; den = t0 in
      if den = 0 then Inl EXCP00_DIVZ
      else let q = num div ucast den; r = (ucast (num mod ucast den) :: u32) in
        if q > 0xffffffff then Inl EXCP00_DIVZ
        else Inr (put_r R_EDX r (put_r R_EAX (ucast q) env)))"

definition helper_idivl_EAX :: "CPUX86State \<Rightarrow> u32 \<Rightarrow> helper_result option" where
  "helper_idivl_EAX env t0 =
     (let num = sint (edx_eax env); den = sint t0 in
      if den = 0 then Some (Inl EXCP00_DIVZ)
      else if num = - (2 ^ 63) \<and> den = - 1 then None
      else let q = num sdiv den; r = num smod den in
        if q \<noteq> sint (word_of_int q :: u32) then Some (Inl EXCP00_DIVZ)
        else Some (Inr (put_r R_EDX (word_of_int r) (put_r R_EAX (word_of_int q) env))))"

section \<open>Decimal adjustment\<close>

definition helper_aam :: "CPUX86State \<Rightarrow> int \<Rightarrow> CPUX86State option" where
  "helper_aam env base =
     (let al = uint (get_r env R_EAX AND 0xff) in
      if base = 0 then None
      else let ah = al sdiv base; al = al smod base in
        Some ((put_r R_EAX ((get_r env R_EAX AND NOT 0xffff) OR word_of_int al OR push_bit 8 (word_of_int ah)) env)
          \<lparr>cc_dst := word_of_int al\<rparr>))"

definition helper_aad :: "CPUX86State \<Rightarrow> u32 \<Rightarrow> CPUX86State" where
  "helper_aad env base =
     (let al = get_r env R_EAX AND 0xff; ah = drop_bit 8 (get_r env R_EAX) AND 0xff;
          al = ((ah * base) + al) AND 0xff in
      (put_r R_EAX ((get_r env R_EAX AND NOT 0xffff) OR al) env)\<lparr>cc_dst := al\<rparr>)"

definition helper_aaa :: "CPUX86State \<Rightarrow> CPUX86State" where
  "helper_aaa env =
     (let ef = cpu_cc_compute_all env (cc_op env); af = ef AND CC_A;
          al = get_r env R_EAX AND 0xff; ah = drop_bit 8 (get_r env R_EAX) AND 0xff;
          icarry = of_bool (al > 0xf9);
          (al, ah, ef) =
            (if al AND 0x0f > 9 \<or> af \<noteq> 0
             then ((al + 6) AND 0x0f, (ah + 1 + icarry) AND 0xff, ef OR (CC_C OR CC_A))
             else (al AND 0x0f, ah, ef AND NOT (CC_C OR CC_A))) in
      (put_r R_EAX ((get_r env R_EAX AND NOT 0xffff) OR al OR push_bit 8 ah) env)\<lparr>cc_src := ef\<rparr>)"

definition helper_aas :: "CPUX86State \<Rightarrow> CPUX86State" where
  "helper_aas env =
     (let ef = cpu_cc_compute_all env (cc_op env); af = ef AND CC_A;
          al = get_r env R_EAX AND 0xff; ah = drop_bit 8 (get_r env R_EAX) AND 0xff;
          icarry = of_bool (al < 6);
          (al, ah, ef) =
            (if al AND 0x0f > 9 \<or> af \<noteq> 0
             then ((al - 6) AND 0x0f, (ah - 1 - icarry) AND 0xff, ef OR (CC_C OR CC_A))
             else (al AND 0x0f, ah, ef AND NOT (CC_C OR CC_A))) in
      (put_r R_EAX ((get_r env R_EAX AND NOT 0xffff) OR al OR push_bit 8 ah) env)\<lparr>cc_src := ef\<rparr>)"

definition bcd_flags :: "u32 \<Rightarrow> u32 \<Rightarrow> u32" where
  "bcd_flags al ef = ef OR push_bit 6 (of_bool (al = 0)) OR parity_table ! unat al OR (al AND 0x80)"

definition helper_daa :: "CPUX86State \<Rightarrow> CPUX86State" where
  "helper_daa env =
     (let ef = cpu_cc_compute_all env (cc_op env); cf = ef AND CC_C; af = ef AND CC_A;
          old_al = get_r env R_EAX AND 0xff;
          (al, ef) = (if old_al AND 0x0f > 9 \<or> af \<noteq> 0 then ((old_al + 6) AND 0xff, CC_A) else (old_al, 0));
          (al, ef) = (if old_al > 0x99 \<or> cf \<noteq> 0 then ((al + 0x60) AND 0xff, ef OR CC_C) else (al, ef)) in
      (put_r R_EAX ((get_r env R_EAX AND NOT 0xff) OR al) env)\<lparr>cc_src := bcd_flags al ef\<rparr>)"

definition helper_das :: "CPUX86State \<Rightarrow> CPUX86State" where
  "helper_das env =
     (let ef = cpu_cc_compute_all env (cc_op env); cf = ef AND CC_C; af = ef AND CC_A;
          al1 = get_r env R_EAX AND 0xff;
          (al, ef) =
            (if al1 AND 0x0f > 9 \<or> af \<noteq> 0
             then ((al1 - 6) AND 0xff, CC_A OR (if al1 < 6 \<or> cf \<noteq> 0 then CC_C else 0)) else (al1, 0));
          (al, ef) = (if al1 > 0x99 \<or> cf \<noteq> 0 then ((al - 0x60) AND 0xff, ef OR CC_C) else (al, ef)) in
      (put_r R_EAX ((get_r env R_EAX AND NOT 0xff) OR al) env)\<lparr>cc_src := bcd_flags al ef\<rparr>)"

section \<open>The 128-bit division of the 64-bit target\<close>

text \<open>A 128-bit number is the pair of its low and high half. \<open>div64\<close> returns \<open>True\<close> on overflow.\<close>

definition add128 :: "u64 \<Rightarrow> u64 \<Rightarrow> u64 \<Rightarrow> u64 \<Rightarrow> u64 \<times> u64" where
  "add128 low high a b =
     (let low = low + a; high = (if low < a then high + 1 else high) in (low, high + b))"

definition neg128 :: "u64 \<Rightarrow> u64 \<Rightarrow> u64 \<times> u64" where
  "neg128 low high = add128 (NOT low) (NOT high) 1 0"

definition div64_step :: "u64 \<Rightarrow> u64 \<times> u64 \<Rightarrow> u64 \<times> u64" where
  "div64_step b = (\<lambda>(a0, a1).
     let ab = drop_bit 63 a1;
         a1 = push_bit 1 a1 OR drop_bit 63 a0;
         (a1, qb) = (if ab \<noteq> 0 \<or> a1 \<ge> b then (a1 - b, 1) else (a1, 0)) in
     (push_bit 1 a0 OR qb, a1))"

definition div64 :: "u64 \<Rightarrow> u64 \<Rightarrow> u64 \<Rightarrow> (bool \<times> u64 \<times> u64) option" where
  "div64 low high b =
     (if high = 0 then
        (if b = 0 then None else Some (False, low div b, low mod b))
      else if high \<ge> b then Some (True, low, high)
      else Some (False, (div64_step b ^^ 64) (low, high)))"

definition idiv64 :: "u64 \<Rightarrow> u64 \<Rightarrow> u64 \<Rightarrow> (bool \<times> u64 \<times> u64) option" where
  "idiv64 low high b =
     (let sa = sint high < 0;
          (low, high) = (if sa then neg128 low high else (low, high));
          sb = sint b < 0 in
      if sb \<and> b = push_bit 63 1 then None
      else do {
        (overflow, low, high) \<leftarrow> div64 low high (if sb then - b else b);
        if overflow then Some (True, low, high)
        else if sa \<noteq> sb then
          (if low > push_bit 63 1 then Some (True, low, high)
           else Some (False, - low, if sa then - high else high))
        else if low \<ge> push_bit 63 1 then Some (True, low, high)
        else Some (False, low, if sa then - high else high) })"

section \<open>Bit counting, scatter and gather\<close>

text \<open>
  \<open>host-utils.h\<close> counts with the compiler's builtin, whose result is the number of zeros below
  (above) the lowest (highest) set bit, and 32 for zero.
\<close>

definition ctz32 :: "u32 \<Rightarrow> nat" where
  "ctz32 v = length (takeWhile (\<lambda>i. \<not> bit v i) [0..<32])"

definition clz32 :: "u32 \<Rightarrow> nat" where
  "clz32 v = length (takeWhile (\<lambda>i. \<not> bit v i) (rev [0..<32]))"

definition helper_ctz :: "u32 \<Rightarrow> u32" where "helper_ctz t0 = word_of_nat (ctz32 t0)"
definition helper_clz :: "u32 \<Rightarrow> u32" where "helper_clz t0 = word_of_nat (clz32 t0)"

lemma clear_lowest_less:
  assumes "(m :: u32) \<noteq> 0" shows "unat (m AND (m - 1)) < unat m"
proof -
  have "unat (m - 1) < unat m" using assms by (simp add: unat_minus_one unat_gt_0)
  moreover have "m AND (m - 1) \<le> m - 1" by (simp add: word_and_le1)
  ultimately show ?thesis unfolding word_le_nat_alt by linarith
qed

function pdep_loop :: "u32 \<Rightarrow> u32 \<Rightarrow> nat \<Rightarrow> u32 \<Rightarrow> u32" where
  "pdep_loop src m i dest =
     (if m = 0 then dest
      else let o' = ctz32 m; m' = m AND (m - 1) in
        pdep_loop src m' (i + 1) (dest OR push_bit o' (drop_bit i src AND 1)))"
  by pat_completeness auto
termination by (relation "measure (\<lambda>(src, m, i, dest). unat m)") (auto intro: clear_lowest_less)

definition helper_pdep :: "u32 \<Rightarrow> u32 \<Rightarrow> u32" where
  "helper_pdep src m = pdep_loop src m 0 0"

function pext_loop :: "u32 \<Rightarrow> u32 \<Rightarrow> nat \<Rightarrow> u32 \<Rightarrow> u32" where
  "pext_loop src m o' dest =
     (if m = 0 then dest
      else let i = ctz32 m; m' = m AND (m - 1) in
        pext_loop src m' (o' + 1) (dest OR push_bit o' (drop_bit i src AND 1)))"
  by pat_completeness auto
termination by (relation "measure (\<lambda>(src, m, i, dest). unat m)") (auto intro: clear_lowest_less)

definition helper_pext :: "u32 \<Rightarrow> u32 \<Rightarrow> u32" where
  "helper_pext src m = pext_loop src m 0 0"

declare pdep_loop.simps [simp del] pext_loop.simps [simp del]

section \<open>Rotation through carry\<close>

definition rclb_table :: "nat list" where
  "rclb_table = [
     0, 1, 2, 3, 4, 5, 6, 7,
     8, 0, 1, 2, 3, 4, 5, 6,
     7, 8, 0, 1, 2, 3, 4, 5,
     6, 7, 8, 0, 1, 2, 3, 4]"

definition rclw_table :: "nat list" where
  "rclw_table = [
     0, 1, 2, 3, 4, 5, 6, 7,
     8, 9, 10, 11, 12, 13, 14, 15,
     16, 0, 1, 2, 3, 4, 5, 6,
     7, 8, 9, 10, 11, 12, 13, 14]"

text \<open>The template takes its operand size \<open>DATA_BITS\<close> from the including file: 8, 16 or 32.\<close>

definition rc_count :: "nat \<Rightarrow> u32 \<Rightarrow> nat" where
  "rc_count data_bits t1 =
     (let count = unat (t1 AND 0x1f) in
      if data_bits = 16 then rclw_table ! count
      else if data_bits = 8 then rclb_table ! count else count)"

definition helper_rcl :: "nat \<Rightarrow> CPUX86State \<Rightarrow> u32 \<Rightarrow> u32 \<Rightarrow> CPUX86State \<times> u32" where
  "helper_rcl data_bits env t0 t1 =
     (let count = rc_count data_bits t1 in
      if count \<noteq> 0 then
        let ef = cc_src env;
            src = t0 AND mask data_bits;
            res = push_bit count src OR push_bit (count - 1) (ef AND CC_C);
            res = (if count > 1 then res OR drop_bit (data_bits + 1 - count) src else res) in
        (env\<lparr>cc_src := (ef AND NOT (CC_C OR CC_O))
           OR (lshift (src XOR res) (11 - (int data_bits - 1)) AND CC_O)
           OR (drop_bit (data_bits - count) src AND CC_C)\<rparr>, res)
      else (env, t0))"

definition helper_rcr :: "nat \<Rightarrow> CPUX86State \<Rightarrow> u32 \<Rightarrow> u32 \<Rightarrow> CPUX86State \<times> u32" where
  "helper_rcr data_bits env t0 t1 =
     (let count = rc_count data_bits t1 in
      if count \<noteq> 0 then
        let ef = cc_src env;
            src = t0 AND mask data_bits;
            res = drop_bit count src OR push_bit (data_bits - count) (ef AND CC_C);
            res = (if count > 1 then res OR push_bit (data_bits + 1 - count) src else res) in
        (env\<lparr>cc_src := (ef AND NOT (CC_C OR CC_O))
           OR (lshift (src XOR res) (11 - (int data_bits - 1)) AND CC_O)
           OR (drop_bit (count - 1) src AND CC_C)\<rparr>, res)
      else (env, t0))"

end
