(* ===== verification/IntProps.thy ===== *)
theory IntProps
  imports IntHelper
begin

text \<open>
  Properties of the integer helpers: the wide division against division of integers, the
  signed 32-bit division on every branch, rotation through carry and back, and bit scatter
  against bit gather.
\<close>

unbundle bit_operations_syntax

section \<open>The wide division is division\<close>

lemma top_bit: "unat (drop_bit 63 (x :: u64)) = unat x div 2 ^ 63" "unat (drop_bit 63 (x :: u64)) \<le> 1"
proof -
  show e: "unat (drop_bit 63 x) = unat x div 2 ^ 63" using unat_drop_bit_eq [of 63 x] drop_bit_eq_div [of 63 "unat x"] by (simp only:)
  have "unat x < 2 ^ 64" using unsigned_less [of x, where 'a = nat] by simp
  then show "unat (drop_bit 63 x) \<le> 1" unfolding e using less_mult_imp_div_less [of "unat x" 2 "2 ^ 63"] by simp
qed

lemma shift_in:
  fixes x t :: u64
  assumes "unat t \<le> 1"
  shows "unat (push_bit 1 x OR t) + 2 ^ 64 * (unat x div 2 ^ 63) = 2 * unat x + unat t"
proof -
  have "\<not> bit (push_bit 1 x) n \<or> \<not> bit t n" for n
  proof (cases n)
    case 0 then show ?thesis by (simp add: bit_0)
  next
    case (Suc k)
    have "\<not> bit (unat t) n" using assms Suc by (cases "unat t") (auto simp: bit_Suc)
    then show ?thesis by (auto simp: bit_unsigned_iff dest: bit_imp_le_length)
  qed
  then have "push_bit 1 x OR t = push_bit 1 x + t" 
    by (intro disjunctive_add_eq_or [symmetric] bit_eqI) (auto simp: bit_and_iff)
  then have "unat (push_bit 1 x OR t) = (2 * unat x + unat t) mod 2 ^ 64"
    by (simp add: unat_word_ariths push_bit_eq_mult mod_simps mult.commute)
  moreover have "(2 * unat x + unat t) div (2 * 2 ^ 63) = unat x div 2 ^ 63"
    unfolding div_mult2_eq using assms by simp
  then have "(2 * unat x + unat t) div 2 ^ 64 = unat x div 2 ^ 63" by simp
  ultimately show ?thesis using mod_mult_div_eq [of "2 * unat x + unat t" "2 ^ 64"] by metis
qed

lemma div64_step_nat:
  assumes "a1 < b" "div64_step b (a0, a1) = (c0, c1)"
  shows "c1 < b \<and> (\<exists>q\<le>1. unat c1 * 2 ^ 64 + unat c0 + q * (unat b * 2 ^ 64) = 2 * (unat a1 * 2 ^ 64 + unat a0) + q)"
proof -
  define w where "w = push_bit 1 a1 OR drop_bit 63 a0"
  define ab where "ab = unat a1 div 2 ^ 63"
  define t where "t = unat (drop_bit 63 a0)"
  have t: "t \<le> 1" "t = unat a0 div 2 ^ 63" using top_bit by (simp_all only: t_def)
  have w: "unat w + 2 ^ 64 * ab = 2 * unat a1 + t"
    unfolding w_def ab_def t_def by (rule shift_in [OF top_bit(2)])
  have lt: "unat a1 < unat b" "unat b < 2 ^ 64" "unat w < 2 ^ 64"
    using assms(1) unsigned_less [of b, where 'a = nat] unsigned_less [of w, where 'a = nat]
    by (simp_all add: word_less_nat_alt)
  have c: "drop_bit 63 a1 \<noteq> 0 \<or> w \<ge> b \<longleftrightarrow> unat b \<le> 2 * unat a1 + t"
  proof -
    have "drop_bit 63 a1 \<noteq> 0 \<longleftrightarrow> ab \<noteq> 0"
      unfolding ab_def using top_bit(1) [of a1] unat_eq_0 [of "drop_bit 63 a1"] by metis
    then show ?thesis using w lt by (cases "ab = 0") (auto simp: word_le_nat_alt)
  qed
  have s: "(c0, c1) = (if unat b \<le> 2 * unat a1 + t then (push_bit 1 a0 OR 1, w - b) else (push_bit 1 a0 OR 0, w))"
    unfolding assms(2) [symmetric] c [symmetric] w_def div64_step_def Let_def prod.case by (simp only: if_distrib prod.case split: if_split) simp
  show ?thesis
  proof (cases "unat b \<le> 2 * unat a1 + t")
    case True
    then have d: "c0 = push_bit 1 a0 OR 1" "c1 = w - b"
      using s by (simp_all only: if_True prod.inject)
    have "ab \<le> 1" using top_bit [of a1] by (simp only: ab_def)
    then have "unat c1 = 2 * unat a1 + t - unat b"
      unfolding d(2) unat_sub_if' using w lt True t(1) by (cases "ab = 0") (auto simp: le_Suc_eq)
    moreover have "unat c0 + 2 ^ 64 * t = 2 * unat a0 + 1"
      using shift_in [of 1 a0] d(1) t(2) by simp
    ultimately have "unat c1 < unat b" "unat c1 * 2 ^ 64 + unat c0 + 1 * (unat b * 2 ^ 64) = 2 * (unat a1 * 2 ^ 64 + unat a0) + 1"
      using True lt t by auto
    then show ?thesis unfolding word_less_nat_alt by blast
  next
    case False
    then have d: "c0 = push_bit 1 a0 OR 0" "c1 = w"
      using s by (simp_all only: if_False prod.inject)
    have "unat c1 = 2 * unat a1 + t" using w False lt d(2) by (cases "ab = 0") auto
    moreover have "unat c0 + 2 ^ 64 * t = 2 * unat a0"
      using shift_in [of 0 a0] d(1) t(2) by simp
    ultimately have "unat c1 < unat b" "unat c1 * 2 ^ 64 + unat c0 + 0 * (unat b * 2 ^ 64) = 2 * (unat a1 * 2 ^ 64 + unat a0) + 0"
      using False by auto
    then show ?thesis unfolding word_less_nat_alt by blast
  qed
qed


lemma div64_loop_nat:
  assumes "a1 < b" "(div64_step b ^^ n) (a0, a1) = (c0, c1)"
  shows "c1 < b \<and> (\<exists>Q<2 ^ n. unat c1 * 2 ^ 64 + unat c0 + Q * (unat b * 2 ^ 64) = 2 ^ n * (unat a1 * 2 ^ 64 + unat a0) + Q)"
  using assms(2)
proof (induction n arbitrary: c0 c1)
  case 0
  then show ?case using assms(1) by simp
next
  case (Suc n)
  obtain e0 e1 where e: "(div64_step b ^^ n) (a0, a1) = (e0, e1)" by fastforce
  from Suc.IH [OF e] obtain Q where Q: "e1 < b" "Q < 2 ^ n"
    "unat e1 * 2 ^ 64 + unat e0 + Q * (unat b * 2 ^ 64) = 2 ^ n * (unat a1 * 2 ^ 64 + unat a0) + Q" by blast
  have "div64_step b (e0, e1) = (c0, c1)" using Suc.prems e by simp
  from div64_step_nat [OF Q(1) this] obtain q where q: "c1 < b" "q \<le> 1"
    "unat c1 * 2 ^ 64 + unat c0 + q * (unat b * 2 ^ 64) = 2 * (unat e1 * 2 ^ 64 + unat e0) + q" by blast
  have "unat c1 * 2 ^ 64 + unat c0 + (2 * Q + q) * (unat b * 2 ^ 64) =
      2 ^ Suc n * (unat a1 * 2 ^ 64 + unat a0) + (2 * Q + q)"
    using q(3) arg_cong [OF Q(3), of "\<lambda>x. 2 * x"] by (simp add: algebra_simps)
  moreover have "2 * Q + q < 2 ^ Suc n" using Q(2) q(2) by simp
  ultimately show ?case using q(1) by blast
qed

lemma div64_loop_correct:
  assumes "a1 < b" "(div64_step b ^^ 64) (a0, a1) = (c0, c1)"
  shows "unat c0 = (unat a1 * 2 ^ 64 + unat a0) div unat b" "unat c1 = (unat a1 * 2 ^ 64 + unat a0) mod unat b"
proof -
  let ?N = "unat a1 * 2 ^ 64 + unat a0"
  from div64_loop_nat [OF assms] obtain Q where Q: "c1 < b" "Q < 2 ^ 64"
    "unat c1 * 2 ^ 64 + unat c0 + Q * (unat b * 2 ^ 64) = 2 ^ 64 * ?N + Q" by blast
  have c0: "unat c0 < 2 ^ 64" using unsigned_less [of c0, where 'a = nat] by simp
  have "(unat c0 + 2 ^ 64 * (unat c1 + Q * unat b)) mod 2 ^ 64 = (Q + 2 ^ 64 * ?N) mod 2 ^ 64"
    using Q(3) by (simp add: algebra_simps)
  then have "unat c0 = Q" unfolding mod_mult_self2 using Q(2) c0 by simp
  with Q(3) have "2 ^ 64 * (unat c1 + Q * unat b) = 2 ^ 64 * ?N" by (simp add: algebra_simps)
  then have "unat c1 + Q * unat b = ?N" by simp
  moreover have "unat c1 < unat b" using Q(1) by (simp add: word_less_nat_alt)
  ultimately show "unat c0 = ?N div unat b" "unat c1 = ?N mod unat b"
    using \<open>unat c0 = Q\<close> by (metis add.commute div_mult_self3 div_less add_0 gr_implies_not0, metis mod_mult_self1 mod_less)
qed

definition wide :: "u64 \<Rightarrow> u64 \<Rightarrow> nat" where
  "wide low high = unat high * 2 ^ 64 + unat low"

lemma quotient_fits:
  assumes "b \<noteq> 0" shows "wide low high div unat b < 2 ^ 64 \<longleftrightarrow> high < b"
proof -
  have b: "0 < unat b" using assms by (simp add: unat_gt_0)
  have "unat low < 2 ^ 64" using unsigned_less [of low, where 'a = nat] by simp
  then have "wide low high < 2 ^ 64 * unat b \<longleftrightarrow> unat high < unat b"
    unfolding wide_def by (auto simp: mult.commute)
  then show ?thesis unfolding word_less_nat_alt using div_less_iff_less_mult [OF b] by (simp add: mult.commute)
qed

lemma div64_eq:
  assumes "b \<noteq> 0"
  shows "div64 low high b =
    (if wide low high div unat b < 2 ^ 64
     then Some (False, word_of_nat (wide low high div unat b), word_of_nat (wide low high mod unat b))
     else Some (True, low, high))"
proof -
  consider "high = 0" | "high \<noteq> 0" "high < b" | "high \<noteq> 0" "\<not> high < b" by blast
  then show ?thesis
  proof cases
    case 1
    then have "low div b = word_of_nat (wide low high div unat b)" "low mod b = word_of_nat (wide low high mod unat b)"
      by (simp_all add: wide_def word_arith_nat_div word_arith_nat_mod)
    with 1 assms show ?thesis using quotient_fits [OF assms, of low high] by (simp add: div64_def word_gt_0)
  next
    case 2
    obtain c0 c1 where c: "(div64_step b ^^ 64) (low, high) = (c0, c1)" by fastforce
    have "word_of_nat (unat c0) = (word_of_nat (wide low high div unat b) :: u64)"
      "word_of_nat (unat c1) = (word_of_nat (wide low high mod unat b) :: u64)"
      by (simp_all only: wide_def div64_loop_correct [OF 2(2) c])
    with 2 c show ?thesis using quotient_fits [OF assms, of low high] by (simp add: div64_def)
  next
    case 3
    then show ?thesis using quotient_fits [OF assms, of low high] by (simp add: div64_def)
  qed
qed

definition wide_sint :: "u64 \<Rightarrow> u64 \<Rightarrow> int" where
  "wide_sint low high = sint high * 2 ^ 64 + uint low"

lemma sint64_uint:
  fixes x :: u64
  shows "sint x = (if uint x < 2 ^ 63 then uint x else uint x - 2 ^ 64)" "sint x < 0 \<longleftrightarrow> 2 ^ 63 \<le> uint x"
proof -
  define u where "u = uint x"
  have b: "0 \<le> u" "u < 2 ^ 64" using uint_lt2p [of x] by (simp_all add: u_def)
  have "sint x = (u + 2 ^ 63) mod (2 * 2 ^ 63) - 2 ^ 63"
    unfolding sint_uint signed_take_bit_eq_take_bit_shift take_bit_eq_mod u_def by simp
  also have "(u + 2 ^ 63) mod (2 * 2 ^ 63) = (if u < 2 ^ 63 then u + 2 ^ 63 else u - 2 ^ 63)"
    using b by (subst wrap_mod) auto
  finally show "sint x = (if uint x < 2 ^ 63 then uint x else uint x - 2 ^ 64)"
    unfolding u_def by (simp split: if_splits)
  then show "sint x < 0 \<longleftrightarrow> 2 ^ 63 \<le> uint x" using b unfolding u_def by auto
qed

lemma wide_sint_eq:
  "wide_sint low high = (if sint high < 0 then int (wide low high) - 2 ^ 128 else int (wide low high))"
  using sint64_uint [of high] by (auto simp: wide_sint_def wide_def algebra_simps)

lemma unat_neg64: "unat (- x :: u64) = (if x = 0 then 0 else 2 ^ 64 - unat x)"
  using unat_sub_if' [of 0 x] by (simp add: unat_eq_0)

lemma unat_not64: "unat (NOT x :: u64) = 2 ^ 64 - 1 - unat x"
proof -
  have "NOT x = - 1 - x" by (simp add: not_eq_complement)
  moreover have "unat x \<le> unat (- 1 :: u64)" using word_le_nat_alt [of x "- 1"] by simp
  ultimately show ?thesis using unat_sub_if' [of "- 1" x]
    by (simp add: unsigned_minus_1_eq_mask mask_eq_exp_minus_1)
qed

lemma neg128_wide:
  assumes "neg128 low high = (low', high')" "wide low high \<noteq> 0"
  shows "wide low' high' = 2 ^ 128 - wide low high"
proof -
  have n: "NOT low + 1 = - low" "NOT high + 1 = - high" by (simp_all add: not_eq_complement)
  have b: "unat low < 2 ^ 64" "unat high < 2 ^ 64"
    using unsigned_less [of low, where 'a = nat] unsigned_less [of high, where 'a = nat] by simp_all
  show ?thesis
  proof (cases "low = 0")
    case True
    with assms n have "low' = 0" "high' = - high" "high \<noteq> 0" by (auto simp: neg128_def add128_def wide_def Let_def)
    with True b show ?thesis by (simp add: wide_def unat_neg64 diff_mult_distrib)
  next
    case False
    then have "\<not> - low < 1" by (simp add: word_less_1)
    with assms n have "low' = - low" "high' = NOT high" by (auto simp: neg128_def add128_def Let_def)
    with False b show ?thesis by (simp add: wide_def unat_neg64 unat_not64 diff_mult_distrib)
  qed
qed

lemma wide_abs:
  assumes "(low', high') = (if sint high < 0 then neg128 low high else (low, high))"
  shows "int (wide low' high') = \<bar>wide_sint low high\<bar>"
proof (cases "sint high < 0")
  case True
  have "unat high < 2 ^ 64" "unat low < 2 ^ 64"
    using unsigned_less [of low, where 'a = nat] unsigned_less [of high, where 'a = nat] by simp_all
  moreover have "high \<noteq> 0" using True by auto
  ultimately have "wide low high < 2 ^ 128" "wide low high \<noteq> 0" by (simp_all add: wide_def unat_eq_0)
  then show ?thesis
    using True assms neg128_wide [of low high low' high'] by (simp add: wide_sint_eq of_nat_diff)
qed (use assms in \<open>simp add: wide_sint_eq\<close>)

lemma divisor_abs:
  fixes b :: u64
  shows "int (unat (if sint b < 0 then - b else b)) = \<bar>sint b\<bar>" "sint b = 0 \<longleftrightarrow> b = 0"
proof -
  define n where "n = unat b"
  have n: "uint b = int n" "n < 2 ^ 64" "b = 0 \<longleftrightarrow> n = 0"
    using unsigned_less [of b, where 'a = nat] by (simp_all add: n_def unat_eq_0)
  show "sint b = 0 \<longleftrightarrow> b = 0"
    using sint64_uint(1) [of b] n by (auto split: if_splits)
  have "unat (- b) = (if n = 0 then 0 else 2 ^ 64 - n)" unfolding unat_neg64 n(3) n_def ..
  then show "int (unat (if sint b < 0 then - b else b)) = \<bar>sint b\<bar>"
    using sint64_uint [of b] n(1,2) by (cases "n < 2 ^ 63") (auto simp: of_nat_diff n_def [symmetric])
qed

lemma signed_parts:
  fixes A B :: int
  assumes "B \<noteq> 0"
  shows "A sdiv B = (if (A < 0) \<noteq> (B < 0) then - (\<bar>A\<bar> div \<bar>B\<bar>) else \<bar>A\<bar> div \<bar>B\<bar>)"
    "A smod B = (if A < 0 then - (\<bar>A\<bar> mod \<bar>B\<bar>) else \<bar>A\<bar> mod \<bar>B\<bar>)"
proof -
  show "A sdiv B = (if (A < 0) \<noteq> (B < 0) then - (\<bar>A\<bar> div \<bar>B\<bar>) else \<bar>A\<bar> div \<bar>B\<bar>)"
    using assms by (auto simp: signed_divide_int_def sgn_if)
  show "A smod B = (if A < 0 then - (\<bar>A\<bar> mod \<bar>B\<bar>) else \<bar>A\<bar> mod \<bar>B\<bar>)"
    by (auto simp: signed_modulo_int_def sgn_if)
qed

lemma wide_sint_neg: "wide_sint low high < 0 \<longleftrightarrow> sint high < 0"
proof -
  define u where "u = uint low"
  have "0 \<le> u" "u < 2 ^ 64" using uint_lt2p [of low] by (simp_all add: u_def)
  then show ?thesis unfolding wide_sint_def u_def [symmetric] by auto
qed

lemma idiv64_eq:
  fixes low high b :: u64
  assumes "b \<noteq> 0" "b \<noteq> push_bit 63 1"
  defines "q \<equiv> wide_sint low high sdiv sint b" and "r \<equiv> wide_sint low high smod sint b"
  shows "\<exists>l h. idiv64 low high b =
    (if - (2 ^ 63) \<le> q \<and> q < 2 ^ 63 then Some (False, word_of_int q, word_of_int r) else Some (True, l, h))"
proof -
  obtain low' high' where n: "(low', high') = (if sint high < 0 then neg128 low high else (low, high))"
    by (metis surj_pair)
  define b' where "b' = (if sint b < 0 then - b else b)"
  define Q R where "Q = wide low' high' div unat b'" and "R = wide low' high' mod unat b'"
  have A: "int (wide low' high') = \<bar>wide_sint low high\<bar>" by (rule wide_abs [OF n])
  have B: "int (unat b') = \<bar>sint b\<bar>" unfolding b'_def by (rule divisor_abs(1))
  have b0: "b' \<noteq> 0" "sint b \<noteq> 0" using assms(1) divisor_abs(2) [of b] by (auto simp: b'_def)
  have q: "q = (if (sint high < 0) \<noteq> (sint b < 0) then - int Q else int Q)"
    unfolding q_def Q_def signed_parts(1) [OF b0(2)] wide_sint_neg zdiv_int A B ..
  have r: "r = (if sint high < 0 then - int R else int R)"
    unfolding r_def R_def signed_parts(2) [OF b0(2)] wide_sint_neg zmod_int A B ..
  have u: "unat (word_of_nat Q :: u64) = Q" if "Q < 2 ^ 64" using that by (simp add: unat_of_nat take_bit_eq_mod)
  have p: "unat (push_bit 63 1 :: u64) = 2 ^ 63" by simp
  have "idiv64 low high b = (if Q < 2 ^ 64 then
      (if (sint high < 0) \<noteq> (sint b < 0) then
        (if Q > 2 ^ 63 then Some (True, word_of_nat Q, word_of_nat R)
         else Some (False, - word_of_nat Q, if sint high < 0 then - word_of_nat R else word_of_nat R))
       else if Q \<ge> 2 ^ 63 then Some (True, word_of_nat Q, word_of_nat R)
       else Some (False, word_of_nat Q, if sint high < 0 then - word_of_nat R else word_of_nat R))
      else Some (True, low', high'))"
    using assms(2) u unfolding idiv64_def Let_def n [symmetric] prod.case b'_def [symmetric] div64_eq [OF b0(1)]
      Q_def [symmetric] R_def [symmetric]
    by (simp add: word_less_nat_alt word_le_nat_alt p)
  then show ?thesis unfolding q r by auto
qed

text \<open>
  C5: the shift-and-subtract division of a 128-bit number by a 64-bit one is division: for a
  nonzero divisor it returns quotient and remainder when the quotient fits in 64 bits and
  reports overflow otherwise. The signed division built on it truncates towards zero and reports
  overflow exactly when the signed quotient does not fit, for every divisor that can be negated.
\<close>

theorem wide_division:
  assumes "b \<noteq> 0"
  shows "div64 low high b =
      (if wide low high div unat b < 2 ^ 64
       then Some (False, word_of_nat (wide low high div unat b), word_of_nat (wide low high mod unat b))
       else Some (True, low, high))
    \<and> (b \<noteq> push_bit 63 1 \<longrightarrow> (\<exists>l h. idiv64 low high b =
      (if - (2 ^ 63) \<le> wide_sint low high sdiv sint b \<and> wide_sint low high sdiv sint b < 2 ^ 63
       then Some (False, word_of_int (wide_sint low high sdiv sint b), word_of_int (wide_sint low high smod sint b))
       else Some (True, l, h))))"
  using div64_eq [OF assms] idiv64_eq [OF assms] by blast

theorem wide_division_witness:
  "div64 5 1 3 = Some (False, 6148914691236517207, 0) \<and> idiv64 (- 7) (- 1) 2 = Some (False, - 3, - 1)"
  using wide_division [of 3 5 1] wide_division [of 2 "- 7" "- 1"]
  by (simp add: wide_def wide_sint_def signed_divide_int_def signed_modulo_int_def)

lemma sint32_fits: "sint (word_of_int q :: u32) = q \<longleftrightarrow> - (2 ^ 31) \<le> q \<and> q < 2 ^ 31"
  by (simp add: sint_sbintrunc' signed_take_bit_int_eq_self_iff)

lemma smod_small:
  fixes A B :: int
  assumes "B \<noteq> 0"
  shows "\<bar>A smod B\<bar> < \<bar>B\<bar>" "A smod B = 0 \<or> (A smod B < 0 \<longleftrightarrow> A < 0)" "A = A sdiv B * B + A smod B"
proof -
  have m: "0 \<le> \<bar>A\<bar> mod \<bar>B\<bar>" "\<bar>A\<bar> mod \<bar>B\<bar> < \<bar>B\<bar>" using assms by simp_all
  show "\<bar>A smod B\<bar> < \<bar>B\<bar>" "A smod B = 0 \<or> (A smod B < 0 \<longleftrightarrow> A < 0)"
    unfolding signed_parts(2) [OF assms] using m by auto
  show "A = A sdiv B * B + A smod B"
  proof -
    define x y where "x = \<bar>A\<bar> div \<bar>B\<bar>" and "y = \<bar>A\<bar> mod \<bar>B\<bar>"
    have "\<bar>A\<bar> = \<bar>B\<bar> * x + y" by (simp add: x_def y_def)
    then show ?thesis
      unfolding signed_parts [OF assms] x_def [symmetric] y_def [symmetric]
      by (cases "A < 0"; cases "B < 0") (simp_all add: algebra_simps)
  qed
qed


section \<open>Rotating through the carry and back\<close>

lemma rc_count_le:
  assumes "data_bits \<in> {8, 16, 32}"
  shows "rc_count data_bits t1 \<le> data_bits"
proof -
  define n where "n = unat (t1 AND 0x1f)"
  have "unat (t1 AND 0x1f) \<le> unat (0x1f :: u32)"
    by (rule word_and_le1 [THEN word_le_nat_alt [THEN iffD1]])
  then have n: "n < 32" by (simp add: n_def)
  have "list_all (\<lambda>c. c \<le> 8) rclb_table" "list_all (\<lambda>c. c \<le> 16) rclw_table" "length rclb_table = 32" "length rclw_table = 32"
    by (simp_all add: rclb_table_def rclw_table_def)
  then show ?thesis using assms n by (auto simp: rc_count_def Let_def n_def [symmetric] list_all_length)
qed

lemma rcl_bits:
  assumes "rc_count w t1 = c" "0 < c" "c \<le> w" "w \<le> 32" "helper_rcl w env t0 t1 = (env', r)"
  shows "i < w \<Longrightarrow> bit r i \<longleftrightarrow> (if c \<le> i then bit t0 (i - c) else if i = c - 1 then bit (cc_src env) 0 else bit t0 (w + 1 - c + i))"
    "bit (cc_src env') 0 \<longleftrightarrow> bit t0 (w - c)"
proof -
  have r: "r = (let res = push_bit c (t0 AND mask w) OR push_bit (c - 1) (cc_src env AND CC_C) in
      if c > 1 then res OR drop_bit (w + 1 - c) (t0 AND mask w) else res)"
    and e: "env' = env\<lparr>cc_src := (cc_src env AND NOT (CC_C OR CC_O))
           OR (lshift ((t0 AND mask w) XOR r) (11 - (int w - 1)) AND CC_O)
           OR (drop_bit (w - c) (t0 AND mask w) AND CC_C)\<rparr>"
    using assms(1,2,5) unfolding helper_rcl_def Let_def by (auto split: if_splits)
  show "bit (cc_src env') 0 \<longleftrightarrow> bit t0 (w - c)"
    unfolding e using assms(2-4)
    by (auto simp: bit_or_iff bit_and_iff bit_not_iff bit_CC bit_drop_bit_eq bit_mask_iff)
  show "i < w \<Longrightarrow> bit r i \<longleftrightarrow> (if c \<le> i then bit t0 (i - c) else if i = c - 1 then bit (cc_src env) 0 else bit t0 (w + 1 - c + i))"
    unfolding r Let_def using assms(2-4)
    by (auto simp: bit_or_iff bit_and_iff bit_CC bit_drop_bit_eq bit_push_bit_iff bit_mask_iff)
qed

lemma rcr_bits:
  assumes "rc_count w t1 = c" "0 < c" "c \<le> w" "w \<le> 32" "helper_rcr w env t0 t1 = (env', r)"
  shows "i < w \<Longrightarrow> bit r i \<longleftrightarrow>
      (if i + c < w then bit t0 (i + c) else if i + c = w then bit (cc_src env) 0 else bit t0 (i - (w + 1 - c)))"
    "bit (cc_src env') 0 \<longleftrightarrow> bit t0 (c - 1)"
proof -
  have r: "r = (let res = drop_bit c (t0 AND mask w) OR push_bit (w - c) (cc_src env AND CC_C) in
      if c > 1 then res OR push_bit (w + 1 - c) (t0 AND mask w) else res)"
    and e: "env' = env\<lparr>cc_src := (cc_src env AND NOT (CC_C OR CC_O))
           OR (lshift ((t0 AND mask w) XOR r) (11 - (int w - 1)) AND CC_O)
           OR (drop_bit (c - 1) (t0 AND mask w) AND CC_C)\<rparr>"
    using assms(1,2,5) unfolding helper_rcr_def Let_def by (auto split: if_splits)
  show "bit (cc_src env') 0 \<longleftrightarrow> bit t0 (c - 1)"
    unfolding e using assms(2-4)
    by (auto simp: bit_or_iff bit_and_iff bit_not_iff bit_CC bit_drop_bit_eq bit_mask_iff)
  show "i < w \<Longrightarrow> bit r i \<longleftrightarrow>
      (if i + c < w then bit t0 (i + c) else if i + c = w then bit (cc_src env) 0 else bit t0 (i - (w + 1 - c)))"
    unfolding r Let_def using assms(2-4)
    by (auto simp: bit_or_iff bit_and_iff bit_CC bit_drop_bit_eq bit_push_bit_iff bit_mask_iff add.commute)
qed

text \<open>
  C28: rotating right through the carry undoes rotating left by the same count: at 8, 16 and 32
  bits the operand and the carry flag come back.
\<close>

theorem rotate_roundtrip:
  assumes "w \<in> {8, 16, 32}" "helper_rcl w env t0 t1 = (env1, r1)" "helper_rcr w env1 r1 t1 = (env2, r2)"
  shows "r2 AND mask w = t0 AND mask w \<and> (bit (cc_src env2) 0 \<longleftrightarrow> bit (cc_src env) 0)"
proof (cases "rc_count w t1 = 0")
  case True
  with assms(2,3) show ?thesis by (simp add: helper_rcl_def helper_rcr_def)
next
  case False
  define c where "c = rc_count w t1"
  have c: "0 < c" "c \<le> w" "w \<le> 32" using False rc_count_le [OF assms(1), of t1] assms(1) by (auto simp: c_def)
  note L = rcl_bits [OF c_def [symmetric] c assms(2)] and R = rcr_bits [OF c_def [symmetric] c assms(3)]
  have "bit r2 i \<longleftrightarrow> bit t0 i" if i: "i < w" for i
    using R(1) [OF i] L(1) [of "i + c"] L(1) [of "i - (w + 1 - c)"] L(2) c i by (auto split: if_splits)
  moreover have "bit (cc_src env2) 0 \<longleftrightarrow> bit (cc_src env) 0" using R(2) L(1) [of "c - 1"] c by auto
  ultimately show ?thesis by (auto intro!: bit_eqI simp: bit_and_iff bit_mask_iff)
qed

theorem rotate_roundtrip_witness:
  "snd (helper_rcr 8 (fst (helper_rcl 8 zero_env 0x81 3)) (snd (helper_rcl 8 zero_env 0x81 3)) 3) AND mask 8 = 0x81"
  using rotate_roundtrip [of 8 zero_env "0x81" 3, OF _ surjective_pairing surjective_pairing] by (simp add: mask_numeral)

section \<open>Scatter and gather\<close>

lemma first_index:
  fixes P :: "nat \<Rightarrow> bool"
  assumes "i < n" "P i"
  defines "k \<equiv> length (takeWhile (\<lambda>i. \<not> P i) [0..<n])"
  shows "k < n" "P k" "j < k \<Longrightarrow> \<not> P j"
proof -
  have "takeWhile (\<lambda>i. \<not> P i) [0..<n] \<noteq> [0..<n]" using assms(1,2) by (auto simp: takeWhile_eq_all_conv)
  then have lt: "length (takeWhile (\<lambda>i. \<not> P i) [0..<n]) < length [0..<n]"
    using length_takeWhile_le [of "\<lambda>i. \<not> P i" "[0..<n]"] takeWhile_eq_take [of "\<lambda>i. \<not> P i" "[0..<n]"]
    by (metis le_neq_implies_less take_all_iff order_refl)
  then show "k < n" by (simp add: k_def)
  show "P k" using nth_length_takeWhile [OF lt] lt unfolding k_def by simp
  assume "j < k"
  then have "takeWhile (\<lambda>i. \<not> P i) [0..<n] ! j \<in> set (takeWhile (\<lambda>i. \<not> P i) [0..<n])" unfolding k_def by (rule nth_mem)
  with \<open>j < k\<close> lt show "\<not> P j" using takeWhile_nth [of j "\<lambda>i. \<not> P i" "[0..<n]"]
    unfolding k_def by (auto dest!: set_takeWhileD)
qed

lemma filter_first:
  assumes "k < n" "P k" "\<And>j. j < k \<Longrightarrow> \<not> P j"
  shows "filter P [0..<n] = k # filter (\<lambda>i. P i \<and> i \<noteq> k) [0..<n]"
proof -
  have u: "[0..<n] = [0..<k] @ k # [Suc k..<n]"
    using upt_add_eq_append [of 0 k "n - k"] assms(1) by (simp add: upt_conv_Cons)
  have e: "filter P [0..<k] = []" "filter (\<lambda>i. P i \<and> i \<noteq> k) [0..<k] = []" using assms(3) by (auto simp: filter_empty_conv)
  have f: "filter (\<lambda>i. P i \<and> i \<noteq> k) [Suc k..<n] = filter P [Suc k..<n]" by (auto intro!: filter_cong)
  show ?thesis unfolding u filter_append filter.simps e f using assms(2) by simp
qed

lemma ctz32_bit:
  assumes "m \<noteq> 0"
  shows "ctz32 m < 32" "bit m (ctz32 m)" "i < ctz32 m \<Longrightarrow> \<not> bit m i"
proof -
  obtain i where "bit m i" using assms by (metis bit_eqI bit_0_eq bot_apply bot_bool_def)
  moreover from this have "i < 32" using bit_imp_le_length [of m i] by simp
  ultimately show "ctz32 m < 32" "bit m (ctz32 m)" "i < ctz32 m \<Longrightarrow> \<not> bit m i" for i
    unfolding ctz32_def using first_index [of _ 32 "bit m"] by blast+
qed

lemma clear_lowest:
  fixes m :: u32
  assumes "m \<noteq> 0"
  shows "bit (m AND (m - 1)) n \<longleftrightarrow> bit m n \<and> n \<noteq> ctz32 m"
proof -
  define k where "k = ctz32 m"
  note k = ctz32_bit [OF assms, folded k_def]
  define y where "y = unset_bit k m"
  have "y AND 2 ^ k = 0" "y OR 2 ^ k = m"
    using k by (auto intro!: bit_eqI simp: y_def bit_simps)
  then have m: "m = y + 2 ^ k" using disjunctive_add_eq_or [of y "2 ^ k"] by simp
  have "y AND mask k = 0" using k by (auto intro!: bit_eqI simp: y_def bit_simps)
  then have "y + mask k = y OR mask k" by (rule disjunctive_add_eq_or)
  moreover have "m - 1 = y + mask k" using m by (simp add: mask_eq_exp_minus_1)
  ultimately show ?thesis using k by (auto simp: y_def bit_simps simp flip: k_def)
qed

definition positions :: "u32 \<Rightarrow> nat list" where
  "positions m = filter (bit m) [0..<32]"

lemma positions_step:
  assumes "m \<noteq> 0"
  shows "positions m = ctz32 m # positions (m AND (m - 1))"
  unfolding positions_def clear_lowest [OF assms] by (rule filter_first) (use ctz32_bit [OF assms] in auto)

lemma positions_0: "positions 0 = []"
  by (simp add: positions_def filter_empty_conv)

lemma one_bit: "bit (push_bit k (drop_bit i src AND 1) :: u32) n \<longleftrightarrow> n = k \<and> n < 32 \<and> bit src i"
  by (cases "bit src i") (auto simp: low_bit bit_drop_bit_eq bit_push_bit_iff bit_1_iff simp del: push_bit_of_1)

lemma pdep_loop_bits:
  "bit (pdep_loop src m i dest) n \<longleftrightarrow> bit dest n \<or> (\<exists>j<length (positions m). positions m ! j = n \<and> bit src (i + j))"
proof (induction src m i dest rule: pdep_loop.induct)
  case (1 src m i dest)
  show ?case
  proof (cases "m = 0")
    case True
    then show ?thesis by (subst pdep_loop.simps) (simp add: positions_0)
  next
    case False
    let ?ps = "positions (m AND (m - 1))"
    have "bit (pdep_loop src m i dest) n \<longleftrightarrow> (bit dest n \<or> n = ctz32 m \<and> bit src i)
        \<or> (\<exists>j<length ?ps. ?ps ! j = n \<and> bit src (Suc i + j))"
    proof -
      have "pdep_loop src m i dest =
          pdep_loop src (m AND (m - 1)) (i + 1) (dest OR push_bit (ctz32 m) (drop_bit i src AND 1))"
        by (subst pdep_loop.simps) (simp only: False if_False Let_def)
      then show ?thesis
        using ctz32_bit(1) [OF False]
        by (simp only: 1 [OF False refl refl, unfolded bit_or_iff one_bit]) auto
    qed
    then show ?thesis
      unfolding positions_step [OF False] Ex_less_Suc2 length_Cons by (auto simp: less_Suc_eq_0_disj)
  qed
qed

lemma pext_loop_bits:
  "bit (pext_loop src m k dest) n \<longleftrightarrow> bit dest n \<or> (\<exists>j<length (positions m). n = k + j \<and> n < 32 \<and> bit src (positions m ! j))"
proof (induction src m k dest rule: pext_loop.induct)
  case (1 src m k dest)
  show ?case
  proof (cases "m = 0")
    case True
    then show ?thesis by (subst pext_loop.simps) (simp add: positions_0)
  next
    case False
    let ?ps = "positions (m AND (m - 1))"
    have "bit (pext_loop src m k dest) n \<longleftrightarrow> (bit dest n \<or> n = k \<and> n < 32 \<and> bit src (ctz32 m))
        \<or> (\<exists>j<length ?ps. n = Suc k + j \<and> n < 32 \<and> bit src (?ps ! j))"
    proof -
      have "pext_loop src m k dest =
          pext_loop src (m AND (m - 1)) (k + 1) (dest OR push_bit k (drop_bit (ctz32 m) src AND 1))"
        by (subst pext_loop.simps) (simp only: False if_False Let_def)
      then show ?thesis
        by (simp only: 1 [OF False refl refl, unfolded bit_or_iff one_bit]) simp
    qed
    then show ?thesis
      unfolding positions_step [OF False] length_Cons by (auto simp: less_Suc_eq_0_disj)
  qed
qed

lemma positions_facts:
  "distinct (positions m)" "length (positions m) \<le> 32" "n \<in> set (positions m) \<longleftrightarrow> bit m n"
proof -
  show "distinct (positions m)" unfolding positions_def by (rule distinct_filter) (rule distinct_upt)
  show "length (positions m) \<le> 32" unfolding positions_def using length_filter_le [of "bit m" "[0..<32]"] by (metis diff_zero length_upt)
  show "n \<in> set (positions m) \<longleftrightarrow> bit m n"
    unfolding positions_def using bit_imp_le_length [of m n] by auto
qed

text \<open>
  C29: bit gather and scatter undo each other: extracting at a mask what was deposited at it
  returns as many low bits of the source as the mask has, and depositing what was extracted
  returns the source under the mask. Both loops end.
\<close>

theorem pext_pdep_inverse:
  "helper_pext (helper_pdep src m) m = take_bit (length (positions m)) src \<and> helper_pdep (helper_pext src m) m = src AND m"
proof
  note F = positions_facts [where m = m]
  let ?ps = "positions m"
  show "helper_pext (helper_pdep src m) m = take_bit (length ?ps) src"
  proof (rule bit_eqI)
    fix n assume "possible_bit TYPE(32 word) n"
    then have n: "n < 32" by simp
    have "bit (helper_pdep src m) (?ps ! n) \<longleftrightarrow> bit src n" if "n < length ?ps"
      unfolding helper_pdep_def pdep_loop_bits using that F(1) by (auto simp: nth_eq_iff_index_eq)
    then show "bit (helper_pext (helper_pdep src m) m) n \<longleftrightarrow> bit (take_bit (length ?ps) src) n"
      unfolding helper_pext_def pext_loop_bits using n by (auto simp: bit_take_bit_iff)
  qed
  show "helper_pdep (helper_pext src m) m = src AND m"
  proof (rule bit_eqI)
    fix n
    have x: "bit (helper_pext src m) j \<longleftrightarrow> bit src (?ps ! j)" if "j < length ?ps" for j
      unfolding helper_pext_def pext_loop_bits using that F(2) by auto
    have "bit (helper_pdep (helper_pext src m) m) n \<longleftrightarrow> (\<exists>j<length ?ps. ?ps ! j = n \<and> bit src n)"
      unfolding helper_pdep_def pdep_loop_bits using x by auto
    then show "bit (helper_pdep (helper_pext src m) m) n \<longleftrightarrow> bit (src AND m) n"
      using F(3) [where n = n] by (auto simp: bit_and_iff in_set_conv_nth)
  qed
qed

end
