(* ===== verification/HBitmap.thy ===== *)
theory HBitmap
  imports TracePrelude
begin

text \<open>
  The hierarchical bitmap of \<open>util/hbitmap.c\<close> and \<open>include/qemu/hbitmap.h\<close>, which the block
  layer uses to track dirty sectors: seven levels of 64-bit words on a 64-bit host, each
  level telling which words of the next one are not zero. One definition per function. An
  access outside of an array, a failed assertion and a loop that does not end are
  \<open>None\<close>. The second half reads every level as a set of bit positions, states the invariant
  and proves the updates of one level.
\<close>

section \<open>Host words\<close>

definition BITS_PER_LONG :: nat where "BITS_PER_LONG = 64"
definition BITS_PER_LEVEL :: nat where "BITS_PER_LEVEL = 6"
definition HBITMAP_LOG_MAX_SIZE :: nat where "HBITMAP_LOG_MAX_SIZE = 41"
definition HBITMAP_LEVELS :: nat where "HBITMAP_LEVELS = HBITMAP_LOG_MAX_SIZE div BITS_PER_LEVEL + 1"

lemmas hb_consts = BITS_PER_LONG_def BITS_PER_LEVEL_def HBITMAP_LOG_MAX_SIZE_def HBITMAP_LEVELS_def

definition ctz64 :: "size_t \<Rightarrow> nat" where
  "ctz64 v = length (takeWhile (\<lambda>i. \<not> bit v i) [0..<64])"

definition ctpop64 :: "size_t \<Rightarrow> nat" where
  "ctpop64 v = length (filter (bit v) [0..<64])"

definition popcountl :: "size_t \<Rightarrow> nat" where
  "popcountl l = ctpop64 l"

text \<open>The position in a word: \<open>n & (BITS_PER_LONG - 1)\<close>.\<close>

definition bit_of :: "size_t \<Rightarrow> nat" where
  "bit_of n = unat (n AND word_of_nat (BITS_PER_LONG - 1))"

definition word_of :: "size_t \<Rightarrow> size_t" where
  "word_of n = drop_bit BITS_PER_LEVEL n"

section \<open>The bitmap\<close>

record HBitmap =
  hb_size :: size_t
  hb_count :: size_t
  granularity :: nat
  levels :: "size_t list list"

record HBitmapIter =
  hbi_granularity :: nat
  hbi_pos :: size_t
  hbi_cur :: "size_t list"

definition rd_word :: "HBitmap \<Rightarrow> nat \<Rightarrow> size_t \<Rightarrow> size_t option" where
  "rd_word hb i p =
     (if i < length (levels hb) \<and> unat p < length (levels hb ! i) then Some (levels hb ! i ! unat p) else None)"

definition wr_word :: "nat \<Rightarrow> size_t \<Rightarrow> size_t \<Rightarrow> HBitmap \<Rightarrow> HBitmap option" where
  "wr_word i p v hb =
     (if i < length (levels hb) \<and> unat p < length (levels hb ! i)
      then Some (hb\<lparr>levels := (levels hb)[i := (levels hb ! i)[unat p := v]]\<rparr>) else None)"

section \<open>Iteration\<close>

text \<open>The loop that looks for the lowest level with bits left; it starts with \<open>i\<close> decremented.\<close>

fun skip_up :: "size_t list \<Rightarrow> nat \<Rightarrow> size_t \<Rightarrow> (nat \<times> size_t \<times> size_t) option" where
  "skip_up cs 0 pos = None"
| "skip_up cs (Suc i) pos =
     (let cur = cs ! i; pos = drop_bit BITS_PER_LEVEL pos in
      if cur = 0 then skip_up cs i pos else Some (i, pos, cur))"

text \<open>The loop back down to the last level.\<close>

function skip_down :: "HBitmap \<Rightarrow> nat \<Rightarrow> size_t \<Rightarrow> size_t \<Rightarrow> size_t list \<Rightarrow> (size_t \<times> size_t \<times> size_t list) option" where
  "skip_down hb i pos cur cs =
     (if i < HBITMAP_LEVELS - 1 then
        if cur = 0 then None
        else do {
          let pos = push_bit BITS_PER_LEVEL pos + word_of_nat (ctz64 cur);
          let cs = cs[i := cur AND (cur - 1)];
          cur \<leftarrow> rd_word hb (i + 1) pos;
          skip_down hb (i + 1) pos cur cs }
      else Some (pos, cur, cs))"
  by pat_completeness auto
termination
  by (relation "measure (\<lambda>(hb, i, pos, cur, cs). HBITMAP_LEVELS - i)") auto

declare skip_down.simps [simp del]

definition hbitmap_iter_skip_words :: "HBitmap \<Rightarrow> HBitmapIter \<Rightarrow> (size_t \<times> HBitmapIter) option" where
  "hbitmap_iter_skip_words hb hbi = do {
     (i, pos, cur) \<leftarrow> skip_up (hbi_cur hbi) (HBITMAP_LEVELS - 1) (hbi_pos hbi);
     if i = 0 \<and> cur = push_bit (BITS_PER_LONG - 1) 1 then Some (0, hbi)
     else do {
       (pos, cur, cs) \<leftarrow> skip_down hb i pos cur (hbi_cur hbi);
       if cur = 0 then None else Some (cur, hbi\<lparr>hbi_pos := pos, hbi_cur := cs\<rparr>) } }"

fun iter_init_loop :: "HBitmap \<Rightarrow> nat \<Rightarrow> size_t \<Rightarrow> size_t list \<Rightarrow> size_t list option" where
  "iter_init_loop hb 0 pos cs = Some cs"
| "iter_init_loop hb (Suc i) pos cs = do {
     let b = bit_of pos;
     let pos = drop_bit BITS_PER_LEVEL pos;
     w \<leftarrow> rd_word hb i pos;
     let c = w AND NOT (push_bit b 1 - 1);
     let c = (if i \<noteq> HBITMAP_LEVELS - 1 then c AND NOT (push_bit b 1) else c);
     iter_init_loop hb i pos (cs[i := c]) }"

definition hbitmap_iter_init :: "HBitmap \<Rightarrow> size_t \<Rightarrow> HBitmapIter option" where
  "hbitmap_iter_init hb first = do {
     let pos = drop_bit (granularity hb) first;
     if \<not> pos < hb_size hb then None
     else do {
       cs \<leftarrow> iter_init_loop hb HBITMAP_LEVELS pos (replicate HBITMAP_LEVELS 0);
       Some \<lparr>hbi_granularity = granularity hb, hbi_pos = drop_bit BITS_PER_LEVEL pos, hbi_cur = cs\<rparr> } }"

text \<open>The word left in the last level, or the next one; common to the two functions below.\<close>

definition iter_word :: "HBitmap \<Rightarrow> HBitmapIter \<Rightarrow> (size_t \<times> HBitmapIter) option" where
  "iter_word hb hbi =
     (let cur = hbi_cur hbi ! (HBITMAP_LEVELS - 1) in
      if cur = 0 then hbitmap_iter_skip_words hb hbi else Some (cur, hbi))"

definition hbitmap_iter_next :: "HBitmap \<Rightarrow> HBitmapIter \<Rightarrow> (size_t \<times> HBitmapIter) option" where
  "hbitmap_iter_next hb hbi = do {
     (cur, hbi) \<leftarrow> iter_word hb hbi;
     if cur = 0 then Some (- 1, hbi)
     else
       let hbi = hbi\<lparr>hbi_cur := (hbi_cur hbi)[HBITMAP_LEVELS - 1 := cur AND (cur - 1)]\<rparr>;
           item = push_bit BITS_PER_LEVEL (hbi_pos hbi) + word_of_nat (ctz64 cur)
       in Some (push_bit (hbi_granularity hbi) item, hbi) }"

definition hbitmap_iter_next_word :: "HBitmap \<Rightarrow> HBitmapIter \<Rightarrow> (size_t \<times> size_t \<times> HBitmapIter) option" where
  "hbitmap_iter_next_word hb hbi = do {
     (cur, hbi) \<leftarrow> iter_word hb hbi;
     if cur = 0 then Some (- 1, 0, hbi)
     else Some (hbi_pos hbi, cur, hbi\<lparr>hbi_cur := (hbi_cur hbi)[HBITMAP_LEVELS - 1 := 0]\<rparr>) }"

section \<open>Queries\<close>

definition hbitmap_empty :: "HBitmap \<Rightarrow> bool" where
  "hbitmap_empty hb \<longleftrightarrow> hb_count hb = 0"

definition hbitmap_count :: "HBitmap \<Rightarrow> size_t" where
  "hbitmap_count hb = push_bit (granularity hb) (hb_count hb)"

partial_function (option) count_loop ::
    "HBitmap \<Rightarrow> size_t \<Rightarrow> size_t \<Rightarrow> HBitmapIter \<Rightarrow> (size_t \<times> size_t \<times> size_t) option" where
  "count_loop hb end_word count hbi = do {
     (pos, cur, hbi) \<leftarrow> hbitmap_iter_next_word hb hbi;
     if pos \<ge> end_word then Some (pos, cur, count)
     else count_loop hb end_word (count + word_of_nat (popcountl cur)) hbi }"

definition hb_count_between :: "HBitmap \<Rightarrow> size_t \<Rightarrow> size_t \<Rightarrow> size_t option" where
  "hb_count_between hb start lst = do {
     let e = lst + 1;
     hbi \<leftarrow> hbitmap_iter_init hb (push_bit (granularity hb) start);
     (pos, cur, count) \<leftarrow> count_loop hb (drop_bit BITS_PER_LEVEL e) 0 hbi;
     if pos = drop_bit BITS_PER_LEVEL e
     then Some (count + word_of_nat (popcountl (cur AND (push_bit (bit_of e) 1 - 1))))
     else Some count }"

definition hbitmap_get :: "HBitmap \<Rightarrow> size_t \<Rightarrow> bool option" where
  "hbitmap_get hb item = do {
     let pos = drop_bit (granularity hb) item;
     w \<leftarrow> rd_word hb (HBITMAP_LEVELS - 1) (drop_bit BITS_PER_LEVEL pos);
     Some (w AND push_bit (bit_of pos) 1 \<noteq> 0) }"

section \<open>Setting a range\<close>

definition elem_mask :: "size_t \<Rightarrow> size_t \<Rightarrow> size_t" where
  "elem_mask start lst = push_bit (bit_of lst) 2 - push_bit (bit_of start) 1"

definition hb_set_elem :: "nat \<Rightarrow> size_t \<Rightarrow> size_t \<Rightarrow> size_t \<Rightarrow> HBitmap \<Rightarrow> (bool \<times> HBitmap) option" where
  "hb_set_elem level i start lst hb = do {
     elem \<leftarrow> rd_word hb level i;
     if word_of lst \<noteq> word_of start \<or> \<not> start \<le> lst then None
     else do {
       hb \<leftarrow> wr_word level i (elem OR elem_mask start lst) hb;
       Some (elem = 0, hb) } }"

text \<open>
  The inner loop, which stops when \<open>i\<close> reaches \<open>lastpos\<close>. It is written twice in the source:
  setting stores \<open>~0UL\<close> and looks for words that were zero, clearing stores \<open>0UL\<close> and looks
  for words that were not.
\<close>

partial_function (option) fill_loop ::
    "(size_t \<Rightarrow> bool) \<Rightarrow> size_t \<Rightarrow> nat \<Rightarrow> size_t \<Rightarrow> size_t \<Rightarrow> size_t \<Rightarrow> bool \<Rightarrow> HBitmap \<Rightarrow>
     (size_t \<times> bool \<times> HBitmap) option" where
  "fill_loop test v level lastpos i next changed hb =
     (let start = next; next = next + word_of_nat BITS_PER_LONG; i = i + 1 in
      if i = lastpos then Some (start, changed, hb)
      else do {
        w \<leftarrow> rd_word hb level i;
        hb \<leftarrow> wr_word level i v hb;
        fill_loop test v level lastpos i next (changed \<or> test w) hb })"

text \<open>The words of one level: the first, the middle ones and the last.\<close>

definition set_words :: "nat \<Rightarrow> size_t \<Rightarrow> size_t \<Rightarrow> HBitmap \<Rightarrow> (bool \<times> HBitmap) option" where
  "set_words level start lst hb = do {
     let pos = word_of start;
     let lastpos = word_of lst;
     if pos < lastpos then do {
       let next = (start OR word_of_nat (BITS_PER_LONG - 1)) + 1;
       (c, hb) \<leftarrow> hb_set_elem level pos start (next - 1) hb;
       (start, changed, hb) \<leftarrow> fill_loop (\<lambda>w. w = 0) (- 1) level lastpos pos next c hb;
       (c, hb) \<leftarrow> hb_set_elem level lastpos start lst hb;
       Some (changed \<or> c, hb) }
     else hb_set_elem level pos start lst hb }"

fun hb_set_between :: "nat \<Rightarrow> size_t \<Rightarrow> size_t \<Rightarrow> HBitmap \<Rightarrow> HBitmap option" where
  "hb_set_between 0 start lst hb = do { (changed, hb) \<leftarrow> set_words 0 start lst hb; Some hb }"
| "hb_set_between (Suc level) start lst hb = do {
     (changed, hb) \<leftarrow> set_words (Suc level) start lst hb;
     if changed then hb_set_between level (word_of start) (word_of lst) hb else Some hb }"

definition hbitmap_set :: "size_t \<Rightarrow> size_t \<Rightarrow> HBitmap \<Rightarrow> HBitmap option" where
  "hbitmap_set start count hb = do {
     let lst = start + count - 1;
     let start = drop_bit (granularity hb) start;
     let lst = drop_bit (granularity hb) lst;
     let count = lst - start + 1;
     n \<leftarrow> hb_count_between hb start lst;
     hb_set_between (HBITMAP_LEVELS - 1) start lst (hb\<lparr>hb_count := hb_count hb + (count - n)\<rparr>) }"

section \<open>Clearing a range\<close>

definition hb_reset_elem :: "nat \<Rightarrow> size_t \<Rightarrow> size_t \<Rightarrow> size_t \<Rightarrow> HBitmap \<Rightarrow> (bool \<times> HBitmap) option" where
  "hb_reset_elem level i start lst hb = do {
     elem \<leftarrow> rd_word hb level i;
     if word_of lst \<noteq> word_of start \<or> \<not> start \<le> lst then None
     else do {
       let mask = elem_mask start lst;
       hb \<leftarrow> wr_word level i (elem AND NOT mask) hb;
       Some (elem \<noteq> 0 \<and> elem AND NOT mask = 0, hb) } }"

text \<open>The words of one level, with the range of blanked words for the level above.\<close>

definition reset_words :: "nat \<Rightarrow> size_t \<Rightarrow> size_t \<Rightarrow> HBitmap \<Rightarrow> (bool \<times> size_t \<times> size_t \<times> HBitmap) option" where
  "reset_words level start lst hb = do {
     let pos = word_of start;
     let lastpos = word_of lst;
     if pos < lastpos then do {
       let next = (start OR word_of_nat (BITS_PER_LONG - 1)) + 1;
       (b, hb) \<leftarrow> hb_reset_elem level pos start (next - 1) hb;
       (start, changed, hb) \<leftarrow> fill_loop (\<lambda>w. w \<noteq> 0) 0 level lastpos pos next b hb;
       (b', hb) \<leftarrow> hb_reset_elem level lastpos start lst hb;
       Some (changed \<or> b', if b then pos else pos + 1, if b' then lastpos else lastpos - 1, hb) }
     else do {
       (b, hb) \<leftarrow> hb_reset_elem level pos start lst hb;
       Some (b, pos, if b then lastpos else lastpos - 1, hb) } }"

fun hb_reset_between :: "nat \<Rightarrow> size_t \<Rightarrow> size_t \<Rightarrow> HBitmap \<Rightarrow> HBitmap option" where
  "hb_reset_between 0 start lst hb = do { (changed, pos, lastpos, hb) \<leftarrow> reset_words 0 start lst hb; Some hb }"
| "hb_reset_between (Suc level) start lst hb = do {
     (changed, pos, lastpos, hb) \<leftarrow> reset_words (Suc level) start lst hb;
     if changed then hb_reset_between level pos lastpos hb else Some hb }"

definition hbitmap_reset :: "size_t \<Rightarrow> size_t \<Rightarrow> HBitmap \<Rightarrow> HBitmap option" where
  "hbitmap_reset start count hb = do {
     let lst = start + count - 1;
     let start = drop_bit (granularity hb) start;
     let lst = drop_bit (granularity hb) lst;
     n \<leftarrow> hb_count_between hb start lst;
     hb_reset_between (HBITMAP_LEVELS - 1) start lst (hb\<lparr>hb_count := hb_count hb - n\<rparr>) }"

section \<open>Allocation\<close>

text \<open>The sizes of the levels, from the last one up; \<open>g_malloc0\<close> aborts the process on failure.\<close>

fun alloc_levels :: "nat \<Rightarrow> size_t \<Rightarrow> size_t list list \<Rightarrow> size_t \<times> size_t list list" where
  "alloc_levels 0 sz ls = (sz, ls)"
| "alloc_levels (Suc i) sz ls =
     (let sz = max (drop_bit BITS_PER_LEVEL (sz + word_of_nat BITS_PER_LONG - 1)) 1 in
      alloc_levels i sz (replicate (unat sz) 0 # ls))"

definition hbitmap_alloc :: "size_t \<Rightarrow> int \<Rightarrow> HBitmap option" where
  "hbitmap_alloc sz gran =
     (if \<not> (gran \<ge> 0 \<and> gran < 64) then None
      else
        let sz = drop_bit (nat gran) (sz + push_bit (nat gran) 1 - 1) in
        if \<not> sz \<le> push_bit HBITMAP_LOG_MAX_SIZE 1 then None
        else
          let (top, ls) = alloc_levels HBITMAP_LEVELS sz [];
              hb = \<lparr>hb_size = sz, hb_count = 0, granularity = nat gran, levels = ls\<rparr> in
          if top \<noteq> 1 then None
          else do { w \<leftarrow> rd_word hb 0 0; wr_word 0 0 (w OR push_bit (BITS_PER_LONG - 1) 1) hb })"

end
