(* ===== verification/HBitLevels.thy ===== *)
theory HBitLevels
  imports HBitmap
begin

text \<open>
  The updates of one level of the hierarchical bitmap: a level is read as the set of its bit
  positions; setting a range adds it, clearing a range removes it, and both report exactly the
  words that changed between zero and not zero.
\<close>

section \<open>Words as sets of positions\<close>

lemma unat_word_of: "unat (word_of n) = unat n div 64"
  by (simp add: word_of_def BITS_PER_LEVEL_def drop_bit_eq_div unat_div)

lemma bit_of_mod: "bit_of n = unat n mod 64"
proof -
  have "n AND 63 = take_bit 6 n"
    by (simp add: take_bit_eq_mask mask_eq_exp_minus_1)
  then show ?thesis by (simp add: bit_of_def BITS_PER_LONG_def take_bit_eq_mod unat_mod)
qed

lemma bit_of_less: "bit_of n < 64"
  by (simp add: bit_of_mod)

lemma zero_iff_bits: "w = 0 \<longleftrightarrow> (\<forall>b<64. \<not> bit w b)" for w :: size_t
  by (auto simp: bit_eq_iff bit_imp_le_length)

lemma bit_less_64: "bit w b \<Longrightarrow> b < 64" for w :: size_t
  using bit_imp_le_length [of w b] by simp

lemma bit_elem_mask:
  assumes "bit_of s \<le> bit_of l"
  shows "bit (elem_mask s l) b \<longleftrightarrow> b < 64 \<and> bit_of s \<le> b \<and> b \<le> bit_of l"
proof -
  let ?m = "mask (Suc (bit_of l)) :: size_t" and ?k = "mask (bit_of s) :: size_t"
  have "elem_mask s l = ?m - ?k"
    by (simp add: elem_mask_def mask_eq_exp_minus_1 push_bit_eq_mult)
  also have "\<dots> = ?m AND NOT ?k"
    by (rule disjunctive_diff) (use assms in \<open>auto simp: bit_mask_iff\<close>)
  finally show ?thesis
    using bit_of_less [of l] by (auto simp: bit_simps)
qed

definition bits :: "size_t list \<Rightarrow> nat set" where
  "bits ws = {n. n div 64 < length ws \<and> bit (ws ! (n div 64)) (n mod 64)}"

lemma in_bits: "n \<in> bits ws \<longleftrightarrow> n div 64 < length ws \<and> bit (ws ! (n div 64)) (n mod 64)"
  by (simp add: bits_def)

lemma bits_bound: "n \<in> bits ws \<Longrightarrow> n < 64 * length ws"
  by (auto simp: in_bits less_mult_imp_div_less div_less_iff_less_mult mult.commute)

lemma bit_in_bits: "p < length ws \<Longrightarrow> bit (ws ! p) b \<longleftrightarrow> b < 64 \<and> p * 64 + b \<in> bits ws"
  using bit_less_64 [of "ws ! p" b] by (auto simp: in_bits)

lemma word_zero_bits: "p < length ws \<Longrightarrow> ws ! p = 0 \<longleftrightarrow> (\<forall>n \<in> bits ws. n div 64 \<noteq> p)"
proof -
  assume p: "p < length ws"
  have "(\<exists>b<64. bit (ws ! p) b) \<longleftrightarrow> (\<exists>n \<in> bits ws. n div 64 = p)"
  proof
    assume "\<exists>b<64. bit (ws ! p) b"
    then obtain b where "b < 64" "p * 64 + b \<in> bits ws" using p by (auto simp: bit_in_bits)
    then show "\<exists>n \<in> bits ws. n div 64 = p" by (intro bexI [of _ "p * 64 + b"]) auto
  next
    assume "\<exists>n \<in> bits ws. n div 64 = p"
    then obtain n where "bit (ws ! p) (n mod 64)" by (auto simp: in_bits)
    then show "\<exists>b<64. bit (ws ! p) b" using bit_less_64 by blast
  qed
  then show ?thesis by (simp add: zero_iff_bits) blast
qed

lemma bits_update:
  "p < length ws \<Longrightarrow> bits (ws[p := v]) = {n \<in> bits ws. n div 64 \<noteq> p} \<union> {n. n div 64 = p \<and> bit v (n mod 64)}"
  by (auto simp: in_bits nth_list_update split: if_splits)

lemma bits_ext:
  assumes "length ws = length vs" "bits ws = bits vs" shows "ws = vs"
proof (rule nth_equalityI)
  show "length ws = length vs" by fact
  fix p assume p: "p < length ws"
  show "ws ! p = vs ! p"
    by (rule bit_word_eqI) (use p assms in \<open>simp add: bit_in_bits\<close>)
qed

lemma finite_bits [simp]: "finite (bits ws)"
  by (rule finite_subset [of _ "{..<64 * length ws}"]) (auto dest: bits_bound)

section \<open>Counting bits\<close>

lemma ctz64_le: "ctz64 v \<le> 64"
  using length_takeWhile_le [of _ "[0..<64]"] by (simp add: ctz64_def)

lemma takeWhile_upt:
  "length (takeWhile (\<lambda>i. \<not> P i) [0..<k]) = (if \<exists>i<k. P i then (LEAST i. P i) else k)"
proof (induction k)
  case 0
  show ?case by simp
next
  case (Suc k)
  show ?case
  proof (cases "\<exists>i<k. P i")
    case True
    then have "\<exists>x \<in> set [0..<k]. P x" by auto
    then have "takeWhile (\<lambda>i. \<not> P i) ([0..<k] @ [k]) = takeWhile (\<lambda>i. \<not> P i) [0..<k]"
      by (metis takeWhile_append1)
    with True Suc show ?thesis by (auto intro: less_SucI)
  next
    case False
    then have "takeWhile (\<lambda>i. \<not> P i) ([0..<k] @ [k]) = [0..<k] @ takeWhile (\<lambda>i. \<not> P i) [k]"
      by (intro takeWhile_append2) auto
    moreover have "P k \<Longrightarrow> (LEAST i. P i) = k" using False by (intro Least_equality) (auto simp: not_less [symmetric])
    ultimately show ?thesis using False by (auto simp: less_Suc_eq)
  qed
qed

lemma ctz64_least: "v \<noteq> 0 \<Longrightarrow> ctz64 v = (LEAST i. bit v i)"
  by (auto simp: ctz64_def takeWhile_upt zero_iff_bits)

lemma ctz64_bit:
  assumes "v \<noteq> 0"
  shows "bit v (ctz64 v)" "ctz64 v < 64" "bit v b \<Longrightarrow> ctz64 v \<le> b"
proof -
  obtain b0 where "bit v b0" using assms by (auto simp: zero_iff_bits)
  then show "bit v (ctz64 v)" unfolding ctz64_least [OF assms] by (rule LeastI)
  then show "ctz64 v < 64" by (rule bit_less_64)
  show "bit v b \<Longrightarrow> ctz64 v \<le> b" unfolding ctz64_least [OF assms] by (rule Least_le)
qed

lemma popcountl_card: "popcountl v = card {b. bit v b}"
proof -
  have "{b. bit v b} = set (filter (bit v) [0..<64])" by (auto simp: bit_less_64)
  then show ?thesis unfolding popcountl_def ctpop64_def
    by (simp only: distinct_card distinct_filter distinct_upt)
qed

text \<open>Clearing the lowest set bit.\<close>

lemma drop_lowest:
  assumes "v \<noteq> 0"
  shows "bit (v AND (v - 1)) b \<longleftrightarrow> bit v b \<and> b \<noteq> ctz64 v"
proof -
  let ?k = "ctz64 v"
  define h where "h = v AND NOT (mask (Suc ?k))"
  have low: "bit v i \<longleftrightarrow> i = ?k" if "i \<le> ?k" for i
    using ctz64_bit [OF assms] that by (metis le_antisym)
  have disj: "bit h i \<longleftrightarrow> bit v i \<and> ?k < i" for i
    by (auto simp: h_def bit_simps Suc_le_eq bit_less_64)
  have v: "v = h + 2 ^ ?k"
  proof -
    have "h OR 2 ^ ?k = v"
      by (rule bit_word_eqI) (use low ctz64_bit(2) [OF assms] ctz64_bit(3) [OF assms] in \<open>auto simp: bit_or_iff disj bit_exp_iff bit_less_64 not_less le_less\<close>)
    moreover have "h + 2 ^ ?k = h OR 2 ^ ?k"
      by (rule disjunctive_add) (auto simp: disj bit_exp_iff)
    ultimately show ?thesis by simp
  qed
  have "v - 1 = h + mask ?k" by (subst v) (simp add: mask_eq_exp_minus_1)
  also have "\<dots> = h OR mask ?k" by (rule disjunctive_add) (auto simp: disj bit_mask_iff)
  finally have "bit (v - 1) i \<longleftrightarrow> bit h i \<or> i < ?k" if "i < 64" for i
    using that by (simp add: bit_or_iff bit_mask_iff)
  then show ?thesis
    using low [of b] ctz64_bit(2) [OF assms] by (cases "b < 64") (auto simp: bit_and_iff disj bit_less_64 not_less)
qed


section \<open>Updates of one level\<close>

abbreviation put :: "nat \<Rightarrow> size_t list \<Rightarrow> HBitmap \<Rightarrow> HBitmap" where
  "put l ws hb \<equiv> hb\<lparr>levels := (levels hb)[l := ws]\<rparr>"

text \<open>A level that is there and whose bit numbers fit in a host word.\<close>

definition has_level :: "HBitmap \<Rightarrow> nat \<Rightarrow> bool" where
  "has_level hb l \<longleftrightarrow> l < length (levels hb) \<and> 64 * length (levels hb ! l) \<le> 2 ^ 60"

lemma has_level_put [simp]: "has_level hb l \<Longrightarrow> length ws = length (levels hb ! l) \<Longrightarrow> has_level (put l ws hb) l"
  by (simp add: has_level_def)

lemma rd_word_at: "has_level hb l \<Longrightarrow> unat p < length (levels hb ! l) \<Longrightarrow> rd_word hb l p = Some (levels hb ! l ! unat p)"
  by (simp add: rd_word_def has_level_def)

lemma wr_word_at:
  "has_level hb l \<Longrightarrow> unat p < length (levels hb ! l) \<Longrightarrow> wr_word l p v hb = Some (put l ((levels hb ! l)[unat p := v]) hb)"
  by (simp add: wr_word_def has_level_def)

lemma same_word_bits:
  assumes "unat l div 64 = unat s div 64" "s \<le> l"
  shows "bit_of s \<le> bit_of l" "{unat s..unat l} = {n. n div 64 = unat s div 64 \<and> bit_of s \<le> n mod 64 \<and> n mod 64 \<le> bit_of l}"
proof -
  have le: "unat s \<le> unat l" using assms(2) by (simp add: word_le_nat_alt)
  have d: "unat s = unat s div 64 * 64 + bit_of s" "unat l = unat s div 64 * 64 + bit_of l"
    using assms(1) by (simp_all add: bit_of_mod) (metis div_mult_mod_eq)
  show "bit_of s \<le> bit_of l" using le d by linarith
  have "n \<in> {unat s..unat l} \<longleftrightarrow> n div 64 = unat s div 64 \<and> bit_of s \<le> n mod 64 \<and> n mod 64 \<le> bit_of l" for n
  proof
    assume n: "n \<in> {unat s..unat l}"
    then have "unat s div 64 \<le> n div 64" "n div 64 \<le> unat l div 64" by (auto intro: div_le_mono)
    then have "n div 64 = unat s div 64" using assms(1) by simp
    moreover have "n = n div 64 * 64 + n mod 64" by simp
    ultimately show "n div 64 = unat s div 64 \<and> bit_of s \<le> n mod 64 \<and> n mod 64 \<le> bit_of l"
      using n d by (metis atLeastAtMost_iff add_le_cancel_left)
  next
    assume "n div 64 = unat s div 64 \<and> bit_of s \<le> n mod 64 \<and> n mod 64 \<le> bit_of l"
    moreover have "n = n div 64 * 64 + n mod 64" by simp
    ultimately show "n \<in> {unat s..unat l}" using d by (metis atLeastAtMost_iff add_le_cancel_left)
  qed
  then show "{unat s..unat l} = {n. n div 64 = unat s div 64 \<and> bit_of s \<le> n mod 64 \<and> n mod 64 \<le> bit_of l}" by blast
qed

lemma elem_ok: "word_of l = word_of s \<longleftrightarrow> unat l div 64 = unat s div 64"
  by (simp add: word_unat_eq_iff unat_word_of)

lemma set_elem_at:
  assumes "has_level hb k" "unat i < length (levels hb ! k)" "unat s div 64 = unat i" "unat l div 64 = unat i" "s \<le> l"
  shows "\<exists>v. hb_set_elem k i s l hb = Some (levels hb ! k ! unat i = 0, put k ((levels hb ! k)[unat i := v]) hb) \<and>
    bits ((levels hb ! k)[unat i := v]) = bits (levels hb ! k) \<union> {unat s..unat l}"
proof -
  have eq: "unat l div 64 = unat s div 64" using assms by simp
  let ?v = "levels hb ! k ! unat i OR elem_mask s l"
  have "hb_set_elem k i s l hb = Some (levels hb ! k ! unat i = 0, put k ((levels hb ! k)[unat i := ?v]) hb)"
    using assms eq by (simp add: hb_set_elem_def rd_word_at wr_word_at elem_ok)
  moreover have "bits ((levels hb ! k)[unat i := ?v]) = bits (levels hb ! k) \<union> {unat s..unat l}"
    unfolding same_word_bits(2) [OF eq assms(5)] bits_update [OF assms(2)]
    using assms(2,3) by (auto simp: in_bits bit_or_iff bit_elem_mask [OF same_word_bits(1) [OF eq assms(5)]])
  ultimately show ?thesis by blast
qed

lemma reset_elem_at:
  assumes "has_level hb k" "unat i < length (levels hb ! k)" "unat s div 64 = unat i" "unat l div 64 = unat i" "s \<le> l"
  shows "\<exists>v. hb_reset_elem k i s l hb = Some (levels hb ! k ! unat i \<noteq> 0 \<and> v = 0, put k ((levels hb ! k)[unat i := v]) hb) \<and>
    bits ((levels hb ! k)[unat i := v]) = bits (levels hb ! k) - {unat s..unat l}"
proof -
  have eq: "unat l div 64 = unat s div 64" using assms by simp
  let ?v = "levels hb ! k ! unat i AND NOT (elem_mask s l)"
  have "hb_reset_elem k i s l hb = Some (levels hb ! k ! unat i \<noteq> 0 \<and> ?v = 0, put k ((levels hb ! k)[unat i := ?v]) hb)"
    using assms eq by (simp add: hb_reset_elem_def rd_word_at wr_word_at elem_ok Let_def)
  moreover have "bits ((levels hb ! k)[unat i := ?v]) = bits (levels hb ! k) - {unat s..unat l}"
    unfolding same_word_bits(2) [OF eq assms(5)] bits_update [OF assms(2)]
    using assms(2,3) by (auto simp: in_bits bit_and_iff bit_not_iff bit_elem_mask [OF same_word_bits(1) [OF eq assms(5)]])
  ultimately show ?thesis by blast
qed

lemma loop_index:
  assumes "i < lastpos" "unat lastpos < n" "64 * n \<le> 2 ^ 60" "unat next = (unat i + 1) * 64"
  shows "unat (i + 1 :: size_t) = unat i + 1" "i + 1 \<noteq> lastpos \<Longrightarrow> i + 1 < lastpos"
    "unat (next + 64 :: size_t) = (unat i + 2) * 64"
proof -
  show 1: "unat (i + 1) = unat i + 1" using word_inc_loop [OF assms(1)] by simp
  show "i + 1 \<noteq> lastpos \<Longrightarrow> i + 1 < lastpos" using assms(1) inc_le by (metis order_le_less)
  have "unat i < n" using assms(1,2) by (simp add: word_less_nat_alt)
  then show "unat (next + 64) = (unat i + 2) * 64"
    using assms(3,4) by (simp add: unat_word_ariths)
qed

lemma fill_loop_at:
  assumes "has_level hb k" "i < lastpos" "unat lastpos < length (levels hb ! k)" "unat next = (unat i + 1) * 64"
  shows "\<exists>st ws. (\<forall>ch. fill_loop test v k lastpos i next ch hb =
      Some (st, ch \<or> (\<exists>p. unat i < p \<and> p < unat lastpos \<and> test (levels hb ! k ! p)), put k ws hb)) \<and>
    unat st = unat lastpos * 64 \<and> length ws = length (levels hb ! k) \<and>
    (\<forall>p. ws ! p = (if unat i < p \<and> p < unat lastpos then v else levels hb ! k ! p))"
  using assms
proof (induction "unat lastpos - unat i" arbitrary: i "next" hb rule: less_induct)
  case less
  let ?ws = "levels hb ! k"
  have lim: "64 * length ?ws \<le> 2 ^ 60" using less.prems(1) by (simp add: has_level_def)
  note ix = loop_index [OF less.prems(2,3) lim less.prems(4)]
  show ?case
  proof (cases "i + 1 = lastpos")
    case True
    then have l: "unat lastpos = unat i + 1" using ix(1) by simp
    show ?thesis using True less.prems(4)
      by (intro exI [of _ "next"] exI [of _ ?ws]) (subst fill_loop.simps, auto simp: l)
  next
    case False
    let ?v = "?ws[unat (i + 1) := v]" and ?hb = "put k (?ws[unat (i + 1) := v]) hb" and ?t = "test (?ws ! unat (i + 1))"
    have lt: "i + 1 < lastpos" using ix(2) False .
    then have in1: "unat (i + 1) < length ?ws" "unat (i + 1) < unat lastpos"
      using less.prems(3) by (simp_all add: word_less_nat_alt)
    have lk: "levels ?hb ! k = ?v" using less.prems(1) by (simp add: has_level_def)
    have "unat lastpos - unat (i + 1) < unat lastpos - unat i" using ix(1) in1 by linarith
    from less.hyps [OF this, of ?hb "next + 64"]
    obtain st ws where r: "\<forall>ch. fill_loop test v k lastpos (i + 1) (next + 64) ch ?hb =
        Some (st, ch \<or> (\<exists>p. unat (i + 1) < p \<and> p < unat lastpos \<and> test (?v ! p)), put k ws ?hb)"
      "unat st = unat lastpos * 64" "length ws = length ?ws"
      "\<forall>p. ws ! p = (if unat (i + 1) < p \<and> p < unat lastpos then v else ?v ! p)"
      using lt less.prems(1,3) ix(1,3) lk by (auto simp: add.commute)
    have "(\<exists>p. unat i < p \<and> p < unat lastpos \<and> test (?ws ! p)) \<longleftrightarrow>
        test (?ws ! unat (i + 1)) \<or> (\<exists>p. unat (i + 1) < p \<and> p < unat lastpos \<and> test (?v ! p))"
      using in1(2) unfolding ix(1) by auto (metis Suc_lessI, meson Suc_lessD)
    moreover have "\<forall>p. ws ! p = (if unat i < p \<and> p < unat lastpos then v else ?ws ! p)"
      using in1 r(4) unfolding ix(1) by (auto simp: nth_list_update)
    moreover have "fill_loop test v k lastpos i next ch hb =
        fill_loop test v k lastpos (i + 1) (next + 64) (ch \<or> ?t) ?hb" for ch
      using False less.prems(1) in1(1)
      by (subst fill_loop.simps) (simp add: BITS_PER_LONG_def rd_word_at wr_word_at Let_def)
    ultimately show ?thesis using r(1-3) by (intro exI [of _ st] exI [of _ ws]) auto
  qed
qed


lemma and_not_mask: "w AND NOT (mask n) = w - take_bit n w" for w :: "'a::len word"
proof -
  have "w - take_bit n w = w AND NOT (take_bit n w)"
    by (rule disjunctive_diff) (simp add: bit_take_bit_iff)
  moreover have "w AND NOT (take_bit n w) = w AND NOT (mask n)"
    by (rule bit_word_eqI) (auto simp: bit_simps)
  ultimately show ?thesis by simp
qed

lemma unat_or_63: "unat (s OR 63 :: size_t) = unat s div 64 * 64 + 63"
proof -
  have "(63 :: size_t) = mask 6" by (simp add: mask_eq_exp_minus_1)
  then have "s OR 63 = (s AND NOT (mask 6)) OR mask 6"
    by (simp only:) (rule bit_word_eqI, auto simp: bit_simps)
  also have "\<dots> = (s AND NOT (mask 6)) + mask 6"
    by (rule disjunctive_add [symmetric]) (auto simp: bit_simps)
  also have "s AND NOT (mask 6) = s - take_bit 6 s"
    by (rule and_not_mask)
  finally have e: "s OR 63 = (s - take_bit 6 s) + mask 6" .
  have "unat (take_bit 6 s) = unat s mod 64" by (simp add: take_bit_eq_mod unat_mod)
  then have d: "unat (s - take_bit 6 s) = unat s div 64 * 64"
    by (subst unat_sub) (auto simp: word_le_nat_alt minus_mod_eq_div_mult)
  have "unat s < 2 ^ 58 * 64" using unsigned_less [of s, where ?'a = nat] by simp
  then have "unat s div 64 < 2 ^ 58" by (rule less_mult_imp_div_less)
  then have "unat s div 64 * 64 + 63 < 2 ^ 64" by simp
  then show ?thesis unfolding e by (simp add: unat_word_ariths d mask_eq_exp_minus_1)
qed


lemma next_word:
  assumes "unat (s :: size_t) < 2 ^ 60"
  shows "unat ((s OR 63) + 1) = (unat s div 64 + 1) * 64" "(s OR 63) + 1 - 1 = s OR 63" "s \<le> s OR 63" "unat (s OR 63) div 64 = unat s div 64"
proof -
  have "unat s div 64 * 64 + 64 < 2 ^ 64" using assms by simp
  then show "unat ((s OR 63) + 1) = (unat s div 64 + 1) * 64"
    by (simp add: unat_word_ariths unat_or_63)
  show "(s OR 63) + 1 - 1 = s OR 63" by simp
  show "s \<le> s OR 63" unfolding word_le_nat_alt unat_or_63 by linarith
  show "unat (s OR 63) div 64 = unat s div 64" by (simp add: unat_or_63)
qed

text \<open>The range of bits cut at the borders of its first and last word.\<close>

lemma range_split:
  fixes s l :: nat
  assumes "s div 64 < l div 64"
  shows "{s..l} = {s..s div 64 * 64 + 63} \<union> {n. s div 64 < n div 64 \<and> n div 64 < l div 64} \<union> {l div 64 * 64..l}"
proof (rule set_eqI)
  fix n :: nat
  let ?m = "n div 64" and ?p = "s div 64" and ?q = "l div 64"
  have up: "n \<le> ?p * 64 + 63 \<longleftrightarrow> ?m \<le> ?p"
    using div_less_iff_less_mult [of 64 n "Suc ?p"] by auto
  have dn: "?q * 64 \<le> n \<longleftrightarrow> ?q \<le> ?m"
    using less_eq_div_iff_mult_less_eq [of 64 ?q n] by simp
  have m: "?p < ?m \<Longrightarrow> s \<le> n" "?m < ?q \<Longrightarrow> n \<le> l" "s \<le> n \<Longrightarrow> ?p \<le> ?m" "n \<le> l \<Longrightarrow> ?m \<le> ?q"
    using div_le_mono [of n s 64] div_le_mono [of l n 64] div_le_mono [of s n 64] div_le_mono [of n l 64] by linarith+
  show "n \<in> {s..l} \<longleftrightarrow> n \<in> {s..?p * 64 + 63} \<union> {n. ?p < n div 64 \<and> n div 64 < ?q} \<union> {?q * 64..l}"
    unfolding Un_iff mem_Collect_eq atLeastAtMost_iff up dn
    using m assms by (cases "?m \<le> ?p"; cases "?q \<le> ?m") auto
qed

lemma bits_fill:
  assumes "length w2 = length w1" "l < length w1" "\<forall>p. w2 ! p = (if s < p \<and> p < l then v else w1 ! p)"
  shows "v = - 1 \<Longrightarrow> bits w2 = bits w1 \<union> {n. s < n div 64 \<and> n div 64 < l}"
    "v = 0 \<Longrightarrow> bits w2 = bits w1 - {n. s < n div 64 \<and> n div 64 < l}"
proof -
  have *: "n \<in> bits w2 \<longleftrightarrow> (if s < n div 64 \<and> n div 64 < l then bit v (n mod 64) else n \<in> bits w1)" for n
    unfolding in_bits assms(3) [rule_format, of "n div 64"] assms(1)
    using assms(2) by (simp split: if_split)
  show "bits w2 = bits w1 \<union> {n. s < n div 64 \<and> n div 64 < l}" if "v = - 1"
    by (rule set_eqI) (auto simp: * that)
  show "bits w2 = bits w1 - {n. s < n div 64 \<and> n div 64 < l}" if "v = 0"
    by (rule set_eqI) (auto simp: * that)
qed

text \<open>
  The common run of both word loops over a range of more than one word: first word, middle
  words and last word, for an elementary operation \<open>f\<close> that updates one word.
\<close>

lemma three_parts:
  assumes "has_level hb k" "s \<le> l" "unat l < 64 * length (levels hb ! k)" "word_of s < word_of l"
    and elem: "\<And>hb i s l. has_level hb k \<Longrightarrow> unat i < length (levels hb ! k) \<Longrightarrow> unat s div 64 = unat i \<Longrightarrow>
      unat l div 64 = unat i \<Longrightarrow> s \<le> l \<Longrightarrow> \<exists>v. f i s l hb = Some (P (levels hb ! k ! unat i) v, put k ((levels hb ! k)[unat i := v]) hb) \<and>
        bits ((levels hb ! k)[unat i := v]) = F (bits (levels hb ! k)) {unat s..unat l}"
  shows "\<exists>a b st ws1 ws2 ws3. let w = levels hb ! k; p = unat s div 64; q = unat l div 64 in
    ws1 = w[p := a] \<and> length ws2 = length w \<and> (\<forall>i. ws2 ! i = (if p < i \<and> i < q then v else ws1 ! i)) \<and> ws3 = ws2[q := b] \<and>
    f (word_of s) s ((s OR 63) + 1 - 1) hb = Some (P (w ! p) a, put k ws1 hb) \<and>
    (\<forall>c. fill_loop test v k (word_of l) (word_of s) ((s OR 63) + 1) c (put k ws1 hb) =
      Some (st, c \<or> (\<exists>i. p < i \<and> i < q \<and> test (w ! i)), put k ws2 hb)) \<and>
    f (word_of l) st l (put k ws2 hb) = Some (P (w ! q) b, put k ws3 hb) \<and>
    bits ws1 = F (bits w) {unat s..p * 64 + 63} \<and> bits ws3 = F (bits ws2) {q * 64..unat l} \<and> p < q \<and> q < length w"
proof -
  let ?w = "levels hb ! k" and ?p = "unat s div 64" and ?q = "unat l div 64"
  have lim: "64 * length ?w \<le> 2 ^ 60" using assms(1) by (simp add: has_level_def)
  have li: "?q < length ?w" using assms(3) by (simp add: less_mult_imp_div_less mult.commute)
  have lt: "?p < ?q" using assms(4) by (simp add: word_less_nat_alt unat_word_of)
  have "unat s < 2 ^ 60" using assms(2,3) lim by (simp add: word_le_nat_alt)
  note nx = next_word [OF this]
  have us: "unat (word_of s) = ?p" "unat (word_of l) = ?q" by (simp_all add: unat_word_of)
  obtain a where 1: "f (word_of s) s (s OR 63) hb = Some (P (?w ! ?p) a, put k (?w[?p := a]) hb)"
    "bits (?w[?p := a]) = F (bits ?w) {unat s..?p * 64 + 63}"
    using elem [OF assms(1), of "word_of s" s "s OR 63"] li lt nx(3,4) unfolding us unat_or_63 by auto
  define w1 where "w1 = ?w[?p := a]"
  let ?h1 = "put k w1 hb"
  have l1: "levels ?h1 ! k = w1" "has_level ?h1 k" "length w1 = length ?w" using assms(1) by (auto simp: has_level_def w1_def)
  have "unat (word_of l) < length (levels ?h1 ! k)" "unat ((s OR 63) + 1) = (unat (word_of s) + 1) * 64"
    using li l1 nx(1) us by simp_all
  from fill_loop_at [OF l1(2) assms(4) this, of test v]
  obtain st w2 where 2: "\<forall>c. fill_loop test v k (word_of l) (word_of s) ((s OR 63) + 1) c ?h1 =
      Some (st, c \<or> (\<exists>i. ?p < i \<and> i < ?q \<and> test (w1 ! i)), put k w2 ?h1)"
    "unat st = ?q * 64" "length w2 = length ?w"
    "\<forall>i. w2 ! i = (if ?p < i \<and> i < ?q then v else w1 ! i)"
    unfolding us l1 by blast
  have t1: "(\<exists>i. ?p < i \<and> i < ?q \<and> test (w1 ! i)) \<longleftrightarrow> (\<exists>i. ?p < i \<and> i < ?q \<and> test (?w ! i))" by (auto simp: w1_def)
  have t2: "put k w2 ?h1 = put k w2 hb" by simp
  let ?h2 = "put k w2 hb"
  have l2: "levels ?h2 ! k = w2" "has_level ?h2 k" using assms(1) 2(3) by (auto simp: has_level_def)
  have st: "st \<le> l" "unat st div 64 = ?q" unfolding word_le_nat_alt 2(2) by simp_all
  obtain b where 3: "f (word_of l) st l ?h2 = Some (P (w2 ! ?q) b, put k (w2[?q := b]) ?h2)"
    "bits (w2[?q := b]) = F (bits w2) {?q * 64..unat l}"
    using elem [OF l2(2), of "word_of l" st l] li st 2(3) unfolding us l2(1) 2(2) by auto
  have t3: "w2 ! ?q = ?w ! ?q" using 2(4) lt by (simp add: w1_def)
  have t4: "put k (w2[?q := b]) ?h2 = put k (w2[?q := b]) hb" by simp
  show ?thesis unfolding Let_def nx(2)
    by (intro exI [of _ a] exI [of _ b] exI [of _ st] exI [of _ w1] exI [of _ w2] exI [of _ "w2[?q := b]"] conjI
          w1_def 2(3,4) refl 1(1) [folded w1_def] 1(2) [folded w1_def] 2(1) [unfolded t1 t2] 3(1) [unfolded t3 t4] 3(2) lt li)
qed

lemma one_word:
  assumes "s \<le> l" "unat l < 64 * n" "\<not> word_of s < word_of l"
  shows "unat (word_of s) < n" "unat s div 64 = unat (word_of s)" "unat l div 64 = unat (word_of s)"
proof -
  have "unat s div 64 \<le> unat l div 64" using assms(1) by (simp add: word_le_nat_alt div_le_mono)
  then have "unat s div 64 = unat l div 64" using assms(3) by (simp add: word_less_nat_alt unat_word_of)
  moreover have "unat l div 64 < n" using assms(2) by (simp add: less_mult_imp_div_less mult.commute)
  ultimately show "unat (word_of s) < n" "unat s div 64 = unat (word_of s)" "unat l div 64 = unat (word_of s)"
    by (simp_all add: unat_word_of)
qed

lemma set_words_at:
  assumes "has_level hb k" "s \<le> l" "unat l < 64 * length (levels hb ! k)"
  shows "\<exists>ws. set_words k s l hb = Some (\<exists>p. unat s div 64 \<le> p \<and> p \<le> unat l div 64 \<and> levels hb ! k ! p = 0, put k ws hb) \<and>
    length ws = length (levels hb ! k) \<and> bits ws = bits (levels hb ! k) \<union> {unat s..unat l}"
proof (cases "word_of s < word_of l")
  case False
  note o = one_word [OF assms(2,3) False]
  obtain v where v: "hb_set_elem k (word_of s) s l hb =
      Some (levels hb ! k ! unat (word_of s) = 0, put k ((levels hb ! k)[unat (word_of s) := v]) hb)"
    "bits ((levels hb ! k)[unat (word_of s) := v]) = bits (levels hb ! k) \<union> {unat s..unat l}"
    using set_elem_at [OF assms(1) o assms(2)] by blast
  have "(\<exists>p. unat s div 64 \<le> p \<and> p \<le> unat l div 64 \<and> levels hb ! k ! p = 0) \<longleftrightarrow> levels hb ! k ! unat (word_of s) = 0"
    unfolding o by (metis le_antisym order_refl)
  then show ?thesis using False v by (intro exI [of _ "(levels hb ! k)[unat (word_of s) := v]"]) (simp add: set_words_def Let_def)
next
  case True
  let ?w = "levels hb ! k" and ?p = "unat s div 64" and ?q = "unat l div 64"
  have "\<exists>a b st ws1 ws2 ws3. let w = ?w; p = ?p; q = ?q in
    ws1 = w[p := a] \<and> length ws2 = length w \<and> (\<forall>i. ws2 ! i = (if p < i \<and> i < q then - 1 else ws1 ! i)) \<and> ws3 = ws2[q := b] \<and>
    hb_set_elem k (word_of s) s ((s OR 63) + 1 - 1) hb = Some (w ! p = 0, put k ws1 hb) \<and>
    (\<forall>c. fill_loop (\<lambda>w. w = 0) (- 1) k (word_of l) (word_of s) ((s OR 63) + 1) c (put k ws1 hb) =
      Some (st, c \<or> (\<exists>i. p < i \<and> i < q \<and> w ! i = 0), put k ws2 hb)) \<and>
    hb_set_elem k (word_of l) st l (put k ws2 hb) = Some (w ! q = 0, put k ws3 hb) \<and>
    bits ws1 = bits w \<union> {unat s..p * 64 + 63} \<and> bits ws3 = bits ws2 \<union> {q * 64..unat l} \<and> p < q \<and> q < length w"
    by (rule three_parts [where f = "hb_set_elem k" and P = "\<lambda>w v. w = 0" and F = "(\<union>)", OF assms True]) (rule set_elem_at)
  then obtain a b st ws1 ws2 ws3 where r: "ws1 = ?w[?p := a]" "length ws2 = length ?w"
      "\<forall>i. ws2 ! i = (if ?p < i \<and> i < ?q then - 1 else ws1 ! i)" "ws3 = ws2[?q := b]"
    and run: "hb_set_elem k (word_of s) s ((s OR 63) + 1 - 1) hb = Some (?w ! ?p = 0, put k ws1 hb)"
      "\<forall>c. fill_loop (\<lambda>w. w = 0) (- 1) k (word_of l) (word_of s) ((s OR 63) + 1) c (put k ws1 hb) =
        Some (st, c \<or> (\<exists>i. ?p < i \<and> i < ?q \<and> ?w ! i = 0), put k ws2 hb)"
      "hb_set_elem k (word_of l) st l (put k ws2 hb) = Some (?w ! ?q = 0, put k ws3 hb)"
    and b: "bits ws1 = bits ?w \<union> {unat s..?p * 64 + 63}" "bits ws3 = bits ws2 \<union> {?q * 64..unat l}" "?p < ?q" "?q < length ?w"
    unfolding Let_def by blast
  have "set_words k s l hb = Some ((?w ! ?p = 0 \<or> (\<exists>i. ?p < i \<and> i < ?q \<and> ?w ! i = 0)) \<or> ?w ! ?q = 0, put k ws3 hb)"
    using True run by (simp add: set_words_def BITS_PER_LONG_def)
  moreover have "(?w ! ?p = 0 \<or> (\<exists>i. ?p < i \<and> i < ?q \<and> ?w ! i = 0)) \<or> ?w ! ?q = 0 \<longleftrightarrow> (\<exists>i. ?p \<le> i \<and> i \<le> ?q \<and> ?w ! i = 0)"
    using b(3) by (auto simp: le_less)
  moreover have "bits ws3 = bits ?w \<union> {unat s..unat l}"
    unfolding b(2) bits_fill(1) [OF _ _ r(3) refl, unfolded r(1) length_list_update, OF r(2) b(4)] b(1) [unfolded r(1)]
      range_split [OF b(3)] by blast
  ultimately show ?thesis using r(2,4) by (intro exI [of _ ws3]) auto
qed


text \<open>The words blanked by clearing a range are exactly the ones reported to the level above.\<close>

definition blanks :: "bool \<Rightarrow> size_t \<Rightarrow> size_t \<Rightarrow> size_t list \<Rightarrow> size_t list \<Rightarrow> bool" where
  "blanks ch a b w w' \<longleftrightarrow> (ch \<longrightarrow> a \<le> b \<and> unat b < length w \<and> (\<forall>p. unat a \<le> p \<and> p \<le> unat b \<longrightarrow> w' ! p = 0)) \<and>
     (\<forall>p. w ! p \<noteq> 0 \<and> w' ! p = 0 \<longrightarrow> ch \<and> unat a \<le> p \<and> p \<le> unat b)"

lemma blanks_parts:
  assumes w1: "w1 = w[p := a]" and w2: "length w2 = length w" "\<forall>i. w2 ! i = (if p < i \<and> i < q then 0 else w1 ! i)"
    and w3: "w3 = w2[q := b]" and pq: "p < q" "q < length w" "unat pos = p" "unat lastpos = q"
  shows "blanks ((w ! p \<noteq> 0 \<and> a = 0 \<or> (\<exists>i. p < i \<and> i < q \<and> w ! i \<noteq> 0)) \<or> w ! q \<noteq> 0 \<and> b = 0)
    (if w ! p \<noteq> 0 \<and> a = 0 then pos else pos + 1) (if w ! q \<noteq> 0 \<and> b = 0 then lastpos else lastpos - 1) w w3"
proof -
  define A where "A = (if w ! p \<noteq> 0 \<and> a = 0 then pos else pos + 1)"
  define B where "B = (if w ! q \<noteq> 0 \<and> b = 0 then lastpos else lastpos - 1)"
  have "pos < lastpos" using pq by (simp add: word_less_nat_alt)
  then have "unat (pos + 1) = p + 1" using word_inc_loop [of pos lastpos] pq(3) by simp
  then have A: "unat A = (if w ! p \<noteq> 0 \<and> a = 0 then p else p + 1)" using pq(3) by (simp add: A_def)
  have "1 \<le> lastpos" using pq(1,4) by (simp add: word_le_nat_alt)
  then have "unat (lastpos - 1) = q - 1" using pq(4) by (simp add: unat_sub)
  then have B: "unat B = (if w ! q \<noteq> 0 \<and> b = 0 then q else q - 1)" using pq(4) by (simp add: B_def)
  have w3p: "w3 ! i = (if i = q then b else if p < i \<and> i < q then 0 else if i = p then a else w ! i)" for i
    using pq(1,2) w2 by (simp add: w3 w1 nth_list_update)
  show ?thesis unfolding A_def [symmetric] B_def [symmetric] blanks_def word_le_nat_alt
  proof (intro conjI impI allI)
    assume ch: "(w ! p \<noteq> 0 \<and> a = 0 \<or> (\<exists>i. p < i \<and> i < q \<and> w ! i \<noteq> 0)) \<or> w ! q \<noteq> 0 \<and> b = 0"
    then show "unat A \<le> unat B" using pq(1) unfolding A B by (auto split: if_splits)
    show "unat B < length w" using pq(1,2) unfolding B by auto
    show "w3 ! i = 0" if "unat A \<le> i \<and> i \<le> unat B" for i using that pq(1) unfolding A B w3p by (auto split: if_splits)
  next
    fix i assume i: "w ! i \<noteq> 0 \<and> w3 ! i = 0"
    then have c: "i = q \<and> b = 0 \<or> p < i \<and> i < q \<or> i = p \<and> a = 0" unfolding w3p using pq(1) by (auto split: if_splits)
    with i show "(w ! p \<noteq> 0 \<and> a = 0 \<or> (\<exists>i. p < i \<and> i < q \<and> w ! i \<noteq> 0)) \<or> w ! q \<noteq> 0 \<and> b = 0" by blast
    show "unat A \<le> i" using c i pq(1) unfolding A by auto
    show "i \<le> unat B" using c i pq(1) unfolding B by auto
  qed
qed

lemma reset_words_at:
  assumes "has_level hb k" "s \<le> l" "unat l < 64 * length (levels hb ! k)"
  shows "\<exists>ch a b ws. reset_words k s l hb = Some (ch, a, b, put k ws hb) \<and> length ws = length (levels hb ! k) \<and>
    bits ws = bits (levels hb ! k) - {unat s..unat l} \<and> blanks ch a b (levels hb ! k) ws"
proof (cases "word_of s < word_of l")
  case False
  note o = one_word [OF assms(2,3) False]
  let ?i = "unat (word_of s)" and ?w = "levels hb ! k"
  obtain v where v: "hb_reset_elem k (word_of s) s l hb = Some (?w ! ?i \<noteq> 0 \<and> v = 0, put k (?w[?i := v]) hb)"
    "bits (?w[?i := v]) = bits ?w - {unat s..unat l}"
    using reset_elem_at [OF assms(1) o assms(2)] by blast
  have eq: "word_of l = word_of s" by (simp only: word_unat_eq_iff unat_word_of [of l] o(3))
  have "reset_words k s l hb = Some (?w ! ?i \<noteq> 0 \<and> v = 0, word_of s,
      if ?w ! ?i \<noteq> 0 \<and> v = 0 then word_of s else word_of s - 1, put k (?w[?i := v]) hb)"
    using v eq by (simp add: reset_words_def Let_def)
  moreover have "blanks (?w ! ?i \<noteq> 0 \<and> v = 0) (word_of s) (if ?w ! ?i \<noteq> 0 \<and> v = 0 then word_of s else word_of s - 1)
      ?w (?w[?i := v])"
    using o(1) by (auto simp: blanks_def nth_list_update)
  ultimately show ?thesis using v(2) by (metis length_list_update)
next
  case True
  let ?w = "levels hb ! k" and ?p = "unat s div 64" and ?q = "unat l div 64"
  have "\<exists>a b st ws1 ws2 ws3. let w = ?w; p = ?p; q = ?q in
    ws1 = w[p := a] \<and> length ws2 = length w \<and> (\<forall>i. ws2 ! i = (if p < i \<and> i < q then 0 else ws1 ! i)) \<and> ws3 = ws2[q := b] \<and>
    hb_reset_elem k (word_of s) s ((s OR 63) + 1 - 1) hb = Some (w ! p \<noteq> 0 \<and> a = 0, put k ws1 hb) \<and>
    (\<forall>c. fill_loop (\<lambda>w. w \<noteq> 0) 0 k (word_of l) (word_of s) ((s OR 63) + 1) c (put k ws1 hb) =
      Some (st, c \<or> (\<exists>i. p < i \<and> i < q \<and> w ! i \<noteq> 0), put k ws2 hb)) \<and>
    hb_reset_elem k (word_of l) st l (put k ws2 hb) = Some (w ! q \<noteq> 0 \<and> b = 0, put k ws3 hb) \<and>
    bits ws1 = bits w - {unat s..p * 64 + 63} \<and> bits ws3 = bits ws2 - {q * 64..unat l} \<and> p < q \<and> q < length w"
    by (rule three_parts [where f = "hb_reset_elem k" and P = "\<lambda>w v. w \<noteq> 0 \<and> v = 0" and F = "(-)", OF assms True]) (rule reset_elem_at)
  then obtain a b st ws1 ws2 ws3 where r: "ws1 = ?w[?p := a]" "length ws2 = length ?w"
      "\<forall>i. ws2 ! i = (if ?p < i \<and> i < ?q then 0 else ws1 ! i)" "ws3 = ws2[?q := b]"
    and run: "hb_reset_elem k (word_of s) s ((s OR 63) + 1 - 1) hb = Some (?w ! ?p \<noteq> 0 \<and> a = 0, put k ws1 hb)"
      "\<forall>c. fill_loop (\<lambda>w. w \<noteq> 0) 0 k (word_of l) (word_of s) ((s OR 63) + 1) c (put k ws1 hb) =
        Some (st, c \<or> (\<exists>i. ?p < i \<and> i < ?q \<and> ?w ! i \<noteq> 0), put k ws2 hb)"
      "hb_reset_elem k (word_of l) st l (put k ws2 hb) = Some (?w ! ?q \<noteq> 0 \<and> b = 0, put k ws3 hb)"
    and b: "bits ws1 = bits ?w - {unat s..?p * 64 + 63}" "bits ws3 = bits ws2 - {?q * 64..unat l}" "?p < ?q" "?q < length ?w"
    unfolding Let_def by blast
  let ?ch = "(?w ! ?p \<noteq> 0 \<and> a = 0 \<or> (\<exists>i. ?p < i \<and> i < ?q \<and> ?w ! i \<noteq> 0)) \<or> ?w ! ?q \<noteq> 0 \<and> b = 0"
    and ?a = "if ?w ! ?p \<noteq> 0 \<and> a = 0 then word_of s else word_of s + 1"
    and ?b = "if ?w ! ?q \<noteq> 0 \<and> b = 0 then word_of l else word_of l - 1"
  have "reset_words k s l hb = Some (?ch, ?a, ?b, put k ws3 hb)"
    using True run by (simp add: reset_words_def BITS_PER_LONG_def Let_def)
  moreover have "blanks ?ch ?a ?b ?w ws3"
    by (rule blanks_parts [OF r b(3,4)]) (simp_all add: unat_word_of)
  moreover have "bits ws3 = bits ?w - {unat s..unat l}"
    unfolding b(2) bits_fill(2) [OF _ _ r(3) refl, unfolded r(1) length_list_update, OF r(2) b(4)] b(1) [unfolded r(1)]
      range_split [OF b(3)] by blast
  moreover have "length ws3 = length ?w" using r(2,4) by simp
  ultimately show ?thesis by blast
qed

end
