(* ===== verification/Spec2Isabelle.thy ===== *)
theory Spec2Isabelle
  imports RbProps TracerProps HookProps IntProps HBitLevels
begin

text \<open>
  A verification development for the kernel-object tracer in \<open>src/target-i386/rev_sem\<close>, an
  extension of the QEMU emulator, and for the helpers of the emulated processor it sits on.

  \<^bold>\<open>The program.\<close> While a guest kernel runs, the emulator calls the tracer before memory
  accesses, at calls and returns and at interrupts. Calls of the kernel's allocators
  (\<open>kmalloc\<close>, \<open>kmem_cache_alloc\<close>, \<open>vmalloc\<close> and their \<open>free\<close> functions) make the
  tracer insert and delete \<^emph>\<open>objects\<close>, address ranges with a type computed from the call stack,
  in a red-black tree (\<open>rb_tree.c\<close>). A data base (\<open>lib_map.cpp\<close>) keeps an instance per object
  with the accesses made to it; a two-level shadow memory (\<open>shadow_mem.c\<close>) marks bytes; the
  call stack is recovered from saved frame pointers. A second part, in the sources but not
  in the build, propagates taint per instruction (\<open>hook_inst.c\<close>, \<open>taint2.c\<close>).

  \<^bold>\<open>The theories.\<close>
  \<^item> \<open>TracePrelude\<close>: words of the sizes used, the bind of \<open>option\<close>, casts.
  \<^item> \<open>RbTree\<close>: \<open>rb_tree.c\<close>, node by node on a heap, one definition per function; loops are
    \<open>partial_function (option)\<close>, so a loop that does not end, a wild pointer and a failed
    assertion are all \<open>None\<close>. \<open>RbShape\<close> relates heaps to trees, \<open>RbBalance\<close> holds
    the colour and height conditions, \<open>RbInsert\<close> and \<open>RbDelete\<close> prove the two repair loops,
    \<open>RbStore\<close> reads the tree as a collection of objects with the locale \<open>object_index\<close>, and
    \<open>RbProps\<close> states the properties: reachable states are balanced search trees; inserting,
    deleting, finding and traversing refine operations on ordered lists; nothing leaks.
  \<^item> \<open>ShadowMem\<close>: \<open>shadow_mem.c\<close>. The two-level map refines a flat memory (locale
    \<open>taint_memory\<close>), range writes wrap modulo \<open>2^32\<close>, freeing frees every page once.
  \<^item> \<open>GuestCpu\<close>: registers, segments and control registers of \<open>CPUX86State\<close> (\<open>cpu.h\<close>), the
    register table and accessors of \<open>qemu-pemu.c\<close>, the page walk of \<open>helper.c\<close> and the memory
    access of \<open>exec.c\<close>; reading guest memory is bytewise across pages.
  \<^item> \<open>CcHelper\<close>: \<open>cc_helper.c\<close> with its template, polymorphic in the operand size. The lazily
    computed flags are the architectural ones, the short carry computation agrees with the
    full one, writing and reading \<open>EFLAGS\<close> is a round trip.
  \<^item> \<open>IntHelper\<close> and \<open>IntProps\<close>: \<open>int_helper.c\<close> and \<open>shift_helper_template.h\<close>. The 128-bit
    shift-and-subtract division is division, rotation through carry can be undone, scatter
    and gather are inverse, the signed division is described on every branch.
  \<^item> \<open>Operands\<close>: \<open>parse_operand.c\<close> and \<open>disas.c\<close>: effective addresses and call targets.
  \<^item> \<open>Callstack\<close>: the frame walk and the interrupt stacks of \<open>lib_map.cpp\<close>, with the constants
    of the active configuration of \<open>config_pemu.h\<close>. The walk returns on ascending frames, can
    hang otherwise, and its text determines the recorded addresses.
  \<^item> \<open>LibMap\<close>: the remaining state of \<open>lib_map.cpp\<close> (data base, instances, call and return
    stacks, dumps) with its invariant.
  \<^item> \<open>Tracer\<close> and \<open>TracerProps\<close>: the hooks of \<open>main.c\<close>, \<open>linux.c\<close>, \<open>infer_size.c\<close>,
    \<open>pemu.c\<close> and the places in \<open>translate.c\<close> and \<open>seg_helper.c\<close> that call them. One event is
    one step of \<open>trace_step\<close>; \<open>trace_reach\<close> is reachability. Every reachable state is well
    formed across tree, data base and shadow memory; allocation, access and release
    of an object do what they are meant to.
  \<^item> \<open>TaintRegs\<close>: the register taint of \<open>taint2.c\<close> and the interface \<open>taint_store\<close> that the
    instruction hooks rely on, interpreted on it. \<open>HookInst\<close>: every hook of \<open>hook_inst.c\<close> and
    the table that selects them. \<open>HookProps\<close>: moves copy taint, arithmetic joins it,
    pushing and popping is a round trip, propagation returns and keeps the store well formed.
  \<^item> \<open>HBitmap\<close> and \<open>HBitLevels\<close>: the hierarchical bitmap of \<open>util/hbitmap.c\<close>, which the block
    layer keeps beside the processor; the updates of one level as operations on sets.

  \<^bold>\<open>Conventions.\<close> A C struct or a group of globals is a record, an enumeration a datatype, a
  machine integer a word of its size. \<open>None\<close> is undefined behaviour, a failed assertion or a
  loop that does not end; exits of the process and guest exceptions are values. Theorems that
  a function returns are stated as such. No fuel is used. The code of other projects is an
  argument: the allocator (\<open>malloc\<close> of the tree and of the shadow memory, which may fail
  where that matters), the instruction decoder (a decoded instruction is a record of what
  its accessors return) and the hash of the standard library. What they promise is a hypothesis
  of the theorem (\<open>sm_malloc_ok\<close>: a returned page is fresh; \<open>sm_malloc_total\<close>: there is room), and
  each such theorem is applied to a concrete instance.

  \<^bold>\<open>Not modelled.\<close> The translator and code generator (only the hook sites are), devices and
  host back ends, floating point and vector helpers, 64-bit targets (but the wide division is
  included), segmentation and exceptions, other front ends and bundled projects: the
  tracer's state does not depend on them. Physical memory is plain memory, without devices. Of the
  tracer, \<open>PEMU_read_timer\<close> reads the host clock, and code under \<open>#if 0\<close> is left out, with one
  exception: the propagation step of \<open>Instrument\<close>, which is the purpose of \<open>hook_inst.c\<close>.
  Texts printed for a person (disassembly, debug output) are left out or kept as messages.
\<close>

end
